theory Spec2Isabelle
  imports Main
begin

section \<open>Block-sparse matrix multiplication: scheduling layer\<close>

text \<open>
  A shallow embedding of the scheduling code of
  \<^verbatim>\<open>python/triton/ops/blocksparse/matmul.py\<close>: the load balancer
  (\<^verbatim>\<open>_matmul.load_balance\<close>), the lock scratch buffer
  (\<^verbatim>\<open>_matmul.get_locks\<close>), the look-up table builder of the dense-output
  modes (\<^verbatim>\<open>_matmul.make_dxx_lut\<close>), the gradient dispatch of
  \<^verbatim>\<open>_matmul.backward\<close>, and the construction and input validation of
  \<^verbatim>\<open>matmul\<close>.

  One-dimensional \<^verbatim>\<open>int64\<close> tensors are lists of \<^typ>\<open>int\<close>
  (overflow of 64-bit arithmetic is not modelled: the entries are block counts).
  Every exception the Python raises is a value \<open>Inl e\<close>.
\<close>

subsection \<open>Exceptions\<close>

text \<open>The \<^verbatim>\<open>ValueError\<close>s of \<^verbatim>\<open>_validate_inputs\<close> and \<^verbatim>\<open>sdd_matmul\<close>,
  each with the values its message prints: the two devices; the two dtypes; the name of
  the dense operand, the expected size, the dimension and the size found; the expected
  trailing shape, the name of the sparse operand and its shape; the two inner
  dimensions.\<close>

datatype value_error =
    DeviceMismatch string string
  | NotCuda
  | DtypeMismatch string string
  | DenseInnerMismatch string int int nat
  | SparseShapeMismatch "int list" string "nat list"
  | TooManyDims
  | InnerDimMismatch nat nat
  | ReductionNotMultipleOf16

text \<open>The exceptions of Python and PyTorch that the modelled code can raise.
  \<open>EmptyReduction\<close>, \<open>ZeroDivision\<close>, \<open>NegativeDimension\<close>, \<open>ArangeBounds\<close>
  and \<open>ShapeMismatch\<close> are the \<^verbatim>\<open>RuntimeError\<close>s of a reduction over no
  elements, of an integer division by zero, of an allocation of negative size, of
  \<^verbatim>\<open>torch.arange\<close> with a negative bound and of tensors whose shapes do not fit
  (\<open>ZeroDivision\<close> is also the \<^verbatim>\<open>ZeroDivisionError\<close> of Python integers).\<close>

datatype exn =
    EmptyReduction
  | ZeroDivision
  | NegativeDimension
  | ArangeBounds
  | ShapeMismatch
  | IndexError
  | KeyError string
  | AttributeError
  | NotImplementedError
  | AssertionError
  | ValueError value_error

subsection \<open>Tensor primitives\<close>

text \<open>\<^verbatim>\<open>triton.cdiv(x, y) = (x + y - 1) // y\<close>.\<close>

definition cdiv :: "int \<Rightarrow> int \<Rightarrow> int" where
  "cdiv x y = (x + y - 1) div y"

text \<open>\<^verbatim>\<open>t.max()\<close> and \<^verbatim>\<open>t.min()\<close> raise a RuntimeError on a tensor
  with no elements.\<close>

definition tensor_max :: "int list \<Rightarrow> exn + int" where
  "tensor_max xs = (if xs = [] then Inl EmptyReduction else Inr (Max (set xs)))"

definition tensor_min :: "int list \<Rightarrow> exn + int" where
  "tensor_min xs = (if xs = [] then Inl EmptyReduction else Inr (Min (set xs)))"

text \<open>Elementwise \<^verbatim>\<open>sizes // seg_max\<close> and \<^verbatim>\<open>sizes % seg_max\<close>: integer
  division by zero raises.\<close>

definition tensor_floordiv :: "int list \<Rightarrow> int \<Rightarrow> exn + int list" where
  "tensor_floordiv xs y = (if y = 0 then Inl ZeroDivision else Inr (map (\<lambda>x. x div y) xs))"

definition tensor_mod :: "int list \<Rightarrow> int \<Rightarrow> exn + int list" where
  "tensor_mod xs y = (if y = 0 then Inl ZeroDivision else Inr (map (\<lambda>x. x mod y) xs))"

text \<open>\<^verbatim>\<open>torch.empty(width)\<close>: a tensor of \<open>width\<close> elements of whatever the
  allocator left in memory, here the values \<open>junk 0, junk 1, ...\<close>; a negative
  size raises.\<close>

definition tensor_empty :: "(nat \<Rightarrow> int) \<Rightarrow> int \<Rightarrow> exn + int list" where
  "tensor_empty junk width =
     (if width < 0 then Inl NegativeDimension else Inr (map junk [0..<nat width]))"

text \<open>A slice bound of Python: a negative bound counts from the end, and every bound is
  clamped to the length.\<close>

definition slice_bound :: "nat \<Rightarrow> int \<Rightarrow> nat" where
  "slice_bound n i = (if i < 0 then nat (max 0 (int n + i)) else min n (nat i))"

text \<open>\<^verbatim>\<open>t[a:b] = v\<close>: fills the slice, silently empty when the bounds cross.\<close>

definition slice_fill :: "int \<Rightarrow> int \<Rightarrow> int \<Rightarrow> int list \<Rightarrow> int list" where
  "slice_fill a b v xs =
     (let lo = slice_bound (length xs) a; hi = slice_bound (length xs) b
      in if lo < hi then take lo xs @ replicate (hi - lo) v @ drop hi xs else xs)"

text \<open>An index of Python: a negative index counts from the end, and an index out of range
  raises IndexError.\<close>

definition index_norm :: "nat \<Rightarrow> int \<Rightarrow> exn + nat" where
  "index_norm n i =
     (let j = (if i < 0 then int n + i else i)
      in if 0 \<le> j \<and> j < int n then Inr (nat j) else Inl IndexError)"

text \<open>\<^verbatim>\<open>t[i] = v\<close> and \<^verbatim>\<open>t[i] += v\<close>.\<close>

definition index_set :: "int \<Rightarrow> int \<Rightarrow> int list \<Rightarrow> exn + int list" where
  "index_set i v xs =
     (case index_norm (length xs) i of Inl e \<Rightarrow> Inl e | Inr k \<Rightarrow> Inr (xs[k := v]))"

definition index_add :: "int \<Rightarrow> int \<Rightarrow> int list \<Rightarrow> exn + int list" where
  "index_add i v xs =
     (case index_norm (length xs) i of Inl e \<Rightarrow> Inl e | Inr k \<Rightarrow> Inr (xs[k := xs ! k + v]))"

text \<open>\<^verbatim>\<open>torch.cumsum(t, dim=0)\<close>, carrying the running total.\<close>

fun cumsum_from :: "int \<Rightarrow> int list \<Rightarrow> int list" where
  "cumsum_from acc [] = []"
| "cumsum_from acc (x # xs) = (acc + x) # cumsum_from (acc + x) xs"

definition cumsum :: "int list \<Rightarrow> int list" where
  "cumsum xs = cumsum_from 0 xs"

subsection \<open>The load balancer\<close>

text \<open>The variables the loop of \<^verbatim>\<open>load_balance\<close> updates.\<close>

record lb_state =
  segments :: "int list"
  column :: "int list"
  lockid :: "int list"
  maxid :: "int list"
  nlocks :: int
  current :: int
  col_idx :: int

text \<open>One iteration of \<^verbatim>\<open>for i in range(len(sizes))\<close>, for the column of
  length \<open>s = sizes[i]\<close>, with \<open>d = div[i]\<close> and \<open>r = rem[i]\<close>.\<close>

definition lb_body ::
  "int \<Rightarrow> int \<Rightarrow> int \<times> int \<times> int \<Rightarrow> lb_state \<Rightarrow> exn + lb_state" where
  "lb_body seg_max seg_min sdr st =
     (let s = fst sdr; d = fst (snd sdr); r = snd (snd sdr);
          isempty = s < seg_min;
          cur = current st;
          last = cur + d + of_bool (r \<ge> seg_min) + of_bool isempty;
          column1 = slice_fill cur last (col_idx st) (column st);
          locked = (d > 1 \<or> (d = 1 \<and> r \<ge> seg_min));
          nlocks1 = (if locked then nlocks st + 1 else nlocks st);
          lockid1 = (if locked then slice_fill cur last nlocks1 (lockid st) else lockid st);
          maxid1 = (if locked then slice_fill cur last (last - cur) (maxid st) else maxid st);
          segments1 = slice_fill cur (cur + d) seg_max (segments st)
      in case (if r < seg_min \<and> \<not> isempty then index_add (cur + d - 1) r segments1
               else Inr segments1) of
           Inl e \<Rightarrow> Inl e
         | Inr segments2 \<Rightarrow>
             (case (if r \<ge> seg_min \<or> isempty then index_set (cur + d) r segments2
                    else Inr segments2) of
                Inl e \<Rightarrow> Inl e
              | Inr segments3 \<Rightarrow>
                  Inr \<lparr>segments = segments3, column = column1, lockid = lockid1,
                       maxid = maxid1, nlocks = nlocks1, current = last,
                       col_idx = col_idx st + 1\<rparr>))"

fun lb_loop ::
  "int \<Rightarrow> int \<Rightarrow> (int \<times> int \<times> int) list \<Rightarrow> lb_state \<Rightarrow> exn + lb_state" where
  "lb_loop seg_max seg_min [] st = Inr st"
| "lb_loop seg_max seg_min (s # ss) st =
     (case lb_body seg_max seg_min s st of
        Inl e \<Rightarrow> Inl e
      | Inr st' \<Rightarrow> lb_loop seg_max seg_min ss st')"

text \<open>\<^verbatim>\<open>packs = div + (sizes < seg_min).long() + (rem >= seg_min).long()\<close>.\<close>

definition packs :: "int \<Rightarrow> int list \<Rightarrow> int list \<Rightarrow> int list \<Rightarrow> int list" where
  "packs seg_min sizes div' rem =
     map (\<lambda>(s, d, r). d + of_bool (s < seg_min) + of_bool (r \<ge> seg_min))
       (zip sizes (zip div' rem))"

text \<open>\<^verbatim>\<open>offsets = zeros_like(segments); offsets[1:] = cumsum(segments[:-1])\<close>.\<close>

definition lb_offsets :: "int list \<Rightarrow> int list" where
  "lb_offsets segs = (if segs = [] then [] else 0 # cumsum (butlast segs))"

text \<open>\<^verbatim>\<open>load_balance(sizes)\<close>. The result is the tuple
  \<open>(segments, column, lockid, maxid, offsets)\<close>. \<open>min_size\<close> is computed although
  only the disabled heuristic used it; its computation raises when no entry of
  \<open>sizes\<close> is nonzero.\<close>

definition load_balance ::
  "(nat \<Rightarrow> int) \<Rightarrow> (nat \<Rightarrow> int) \<Rightarrow> int list
     \<Rightarrow> exn + (int list \<times> int list \<times> int list \<times> int list \<times> int list)" where
  "load_balance junk1 junk2 sizes =
     (case tensor_max sizes of
        Inl e \<Rightarrow> Inl e
      | Inr max_size \<Rightarrow>
     (case tensor_min (filter (\<lambda>s. s \<noteq> 0) sizes) of
        Inl e \<Rightarrow> Inl e
      | Inr min_size \<Rightarrow>
     (let seg_max = max_size;
          seg_min = max (cdiv seg_max 4) 4
      in case tensor_floordiv sizes seg_max of
        Inl e \<Rightarrow> Inl e
      | Inr div' \<Rightarrow>
     (case tensor_mod sizes seg_max of
        Inl e \<Rightarrow> Inl e
      | Inr rem \<Rightarrow>
     (let width = sum_list (packs seg_min sizes div' rem)
      in case tensor_empty junk1 width of
        Inl e \<Rightarrow> Inl e
      | Inr segments0 \<Rightarrow>
     (case tensor_empty junk2 width of
        Inl e \<Rightarrow> Inl e
      | Inr column0 \<Rightarrow>
     (case lb_loop seg_max seg_min (zip sizes (zip div' rem))
             \<lparr>segments = segments0, column = column0,
              lockid = replicate (length segments0) 0,
              maxid = replicate (length segments0) 0,
              nlocks = 0, current = 0, col_idx = 0\<rparr> of
        Inl e \<Rightarrow> Inl e
      | Inr st \<Rightarrow>
          Inr (segments st, column st, lockid st, maxid st,
               lb_offsets (segments st)))))))))"

text \<open>The components of the tuple \<^verbatim>\<open>load_balance\<close> returns.\<close>

type_synonym lb_result = "int list \<times> int list \<times> int list \<times> int list \<times> int list"

definition res_segments :: "lb_result \<Rightarrow> int list" where
  "res_segments r = fst r"

definition res_column :: "lb_result \<Rightarrow> int list" where
  "res_column r = fst (snd r)"

definition res_lockid :: "lb_result \<Rightarrow> int list" where
  "res_lockid r = fst (snd (snd r))"

definition res_maxid :: "lb_result \<Rightarrow> int list" where
  "res_maxid r = fst (snd (snd (snd r)))"

definition res_offsets :: "lb_result \<Rightarrow> int list" where
  "res_offsets r = snd (snd (snd (snd r)))"

text \<open>The entries of the vector \<open>xs\<close> (segment sizes, lock ids) at the positions that
  \<open>column\<close> assigns to column \<open>i\<close>, in order: the segments of column \<open>i\<close>.\<close>

definition of_column :: "int list \<Rightarrow> int list \<Rightarrow> int \<Rightarrow> int list" where
  "of_column xs col i = map fst (filter (\<lambda>p. snd p = i) (zip xs col))"

text \<open>The number of nonzero and of zero entries of \<open>sizes\<close>.\<close>

definition nonzero_count :: "int list \<Rightarrow> nat" where
  "nonzero_count sizes = length (filter (\<lambda>s. s \<noteq> 0) sizes)"

definition zero_count :: "int list \<Rightarrow> nat" where
  "zero_count sizes = length (filter (\<lambda>s. s = 0) sizes)"

text \<open>Memory that happens to hold zeros, for running the code on concrete inputs.\<close>

definition zero_mem :: "nat \<Rightarrow> int" where
  "zero_mem k = 0"

text \<open>What the loop writes for one column when \<open>seg_max\<close> is the largest entry \<open>m\<close>
  of \<open>sizes\<close>: a column as long as \<open>m < 4\<close> gets a second segment of size 0, every
  other column is one segment. These closed forms are proved equal to the loop below.\<close>

definition col_segs :: "int \<Rightarrow> int \<Rightarrow> int list" where
  "col_segs m s = (if s = m \<and> m < 4 then [m, 0] else [s])"

definition all_segs :: "int \<Rightarrow> int list \<Rightarrow> int list" where
  "all_segs m ss = concat (map (col_segs m) ss)"

fun col_ids :: "int \<Rightarrow> int \<Rightarrow> int list \<Rightarrow> int list" where
  "col_ids j m [] = []"
| "col_ids j m (s # ss) = replicate (length (col_segs m s)) j @ col_ids (j + 1) m ss"

subsection \<open>The lock scratch buffer\<close>

text \<open>A tensor object of the class attribute \<^verbatim>\<open>_matmul.locks\<close>: \<open>buf_id\<close> is the
  identity of the object, \<open>cells\<close> its \<^verbatim>\<open>int32\<close> elements. \<open>fresh\<close> is the
  identity the next allocation gets.\<close>

record buffer =
  buf_id :: nat
  cells :: "int list"

record locks_state =
  locks :: "string \<rightharpoonup> buffer"
  fresh :: nat

text \<open>\<^verbatim>\<open>torch.zeros(size, dtype=torch.int32, device=dev)\<close>.\<close>

definition torch_zeros :: "nat \<Rightarrow> int \<Rightarrow> exn + buffer" where
  "torch_zeros ident sz =
     (if sz < 0 then Inl NegativeDimension
      else Inr \<lparr>buf_id = ident, cells = replicate (nat sz) 0\<rparr>)"

text \<open>\<^verbatim>\<open>get_locks(size, dev)\<close> (\<open>sz\<close> is \<open>size\<close>): the test
  \<^verbatim>\<open>dev not in _matmul.locks or size > _matmul.locks[dev].size(0)\<close> is a case
  distinction on the dictionary entry. The result is the buffer returned and the new
  state.\<close>

definition get_locks :: "int \<Rightarrow> string \<Rightarrow> locks_state \<Rightarrow> exn + (buffer \<times> locks_state)" where
  "get_locks sz dev st =
     (let allocate =
            (case torch_zeros (fresh st) sz of
               Inl e \<Rightarrow> Inl e
             | Inr b \<Rightarrow> Inr (b, \<lparr>locks = (locks st)(dev \<mapsto> b), fresh = fresh st + 1\<rparr>))
      in case locks st dev of
           None \<Rightarrow> allocate
         | Some b \<Rightarrow> if sz > int (length (cells b)) then allocate else Inr (b, st))"

text \<open>A sequence of calls \<^verbatim>\<open>get_locks(size, dev)\<close>, in order.\<close>

fun get_locks_seq :: "(int \<times> string) list \<Rightarrow> locks_state \<Rightarrow> exn + locks_state" where
  "get_locks_seq [] st = Inr st"
| "get_locks_seq (c # cs) st =
     (case get_locks (fst c) (snd c) st of
        Inl e \<Rightarrow> Inl e
      | Inr bs \<Rightarrow> get_locks_seq cs (snd bs))"

text \<open>The number of elements of the buffer stored for a device, 0 when there is none.\<close>

definition buffer_size :: "locks_state \<Rightarrow> string \<Rightarrow> nat" where
  "buffer_size st dev = (case locks st dev of None \<Rightarrow> 0 | Some b \<Rightarrow> length (cells b))"

subsection \<open>Tensors and layouts\<close>

text \<open>What the scheduling code reads of a tensor: its shape, device and element type.
  A layout has integer entries too, stored contiguously in row-major order.\<close>

record tensor =
  shape :: "nat list"
  device :: string
  is_cuda :: bool
  dtype :: string

record layout = tensor +
  entries :: "int list"

text \<open>\<^verbatim>\<open>xs[i]\<close> on a tuple, a shape or a string.\<close>

definition py_index :: "'a list \<Rightarrow> int \<Rightarrow> exn + 'a" where
  "py_index xs i = (case index_norm (length xs) i of Inl e \<Rightarrow> Inl e | Inr k \<Rightarrow> Inr (xs ! k))"

text \<open>\<^verbatim>\<open>xs[i:]\<close>.\<close>

definition py_slice_from :: "'a list \<Rightarrow> int \<Rightarrow> 'a list" where
  "py_slice_from xs i = drop (slice_bound (length xs) i) xs"

subsection \<open>The look-up table builder of the dense-output modes\<close>

text \<open>The layout \<^verbatim>\<open>make_lut\<close> passes to \<^verbatim>\<open>make_dxx_lut\<close> is
  \<^verbatim>\<open>self.layout\<close>, which \<^verbatim>\<open>__init__\<close> has given three dimensions: its three
  sizes and its \<^verbatim>\<open>int64\<close> entries in row-major order.\<close>

record layout3 =
  size0 :: nat
  size1 :: nat
  size2 :: nat
  cells3 :: "int list"

text \<open>\<^verbatim>\<open>layout[z, r, c]\<close>.\<close>

definition layout_at :: "layout3 \<Rightarrow> nat \<Rightarrow> nat \<Rightarrow> nat \<Rightarrow> int" where
  "layout_at L z r c = cells3 L ! ((z * size1 L + r) * size2 L + c)"

text \<open>\<^verbatim>\<open>torch.sum(layout[z, :, :], 1)\<close> when \<open>trans\<close> (here \<open>tr\<close>), the sums of the rows, and
  \<^verbatim>\<open>torch.sum(layout[z, :, :], 0)\<close> otherwise, the sums of the columns.\<close>

definition slice_sizes :: "layout3 \<Rightarrow> bool \<Rightarrow> nat \<Rightarrow> int list" where
  "slice_sizes L tr z =
     (let H = size1 L; W = size2 L
      in if tr then map (\<lambda>r. sum_list (map (\<lambda>c. layout_at L z r c) [0..<W])) [0..<H]
         else map (\<lambda>c. sum_list (map (\<lambda>r. layout_at L z r c) [0..<H])) [0..<W])"

text \<open>\<^verbatim>\<open>layout[z, :, :].sum()\<close>.\<close>

definition slice_sum :: "layout3 \<Rightarrow> nat \<Rightarrow> int" where
  "slice_sum L z =
     sum_list (map (\<lambda>r. sum_list (map (\<lambda>c. layout_at L z r c) [0..<size2 L]))
                 [0..<size1 L])"

text \<open>The variables of the loop \<^verbatim>\<open>for z in range(layout.size(0))\<close> of
  \<^verbatim>\<open>make_dxx_lut\<close>; the vectors have the prefix \<open>lut\<close> here.\<close>

record dxx_state =
  lut_segments :: "int list"
  lut_column :: "int list"
  lut_depth :: "int list"
  lut_lockid :: "int list"
  lut_maxid :: "int list"
  lut_offsets :: "int list"
  current_offset :: int
  current_maxid :: int

text \<open>One iteration, for the depth slice \<open>z\<close>. \<open>junk1 z\<close> and \<open>junk2 z\<close> are the
  contents of the uninitialised buffers of this call of \<^verbatim>\<open>load_balance\<close>.\<close>

definition dxx_body ::
  "(nat \<Rightarrow> nat \<Rightarrow> int) \<Rightarrow> (nat \<Rightarrow> nat \<Rightarrow> int) \<Rightarrow> layout3 \<Rightarrow> bool \<Rightarrow> nat \<Rightarrow> dxx_state
     \<Rightarrow> exn + dxx_state" where
  "dxx_body junk1 junk2 L tr z st =
     (let sizes = slice_sizes L tr z
      in case load_balance (junk1 z) (junk2 z) sizes of
           Inl e \<Rightarrow> Inl e
         | Inr r \<Rightarrow>
     (let z_segments = res_segments r; z_column = res_column r; z_maxid = res_maxid r;
          z_offsets = res_offsets r;
          z_depth = map (\<lambda>one. int z * one) (replicate (length z_segments) 1);
          z_lockid = map (\<lambda>l. if l > 0 then l + current_maxid st else l) (res_lockid r)
      in case tensor_max z_lockid of
           Inl e \<Rightarrow> Inl e
         | Inr new_maxid \<Rightarrow>
             Inr \<lparr>lut_segments = lut_segments st @ z_segments,
                  lut_column = lut_column st @ z_column,
                  lut_depth = lut_depth st @ z_depth,
                  lut_lockid = lut_lockid st @ z_lockid,
                  lut_maxid = lut_maxid st @ z_maxid,
                  lut_offsets = lut_offsets st @ map (\<lambda>off. current_offset st + off) z_offsets,
                  current_offset = current_offset st + slice_sum L z,
                  current_maxid = new_maxid\<rparr>))"

fun dxx_loop ::
  "(nat \<Rightarrow> nat \<Rightarrow> int) \<Rightarrow> (nat \<Rightarrow> nat \<Rightarrow> int) \<Rightarrow> layout3 \<Rightarrow> bool \<Rightarrow> nat list \<Rightarrow> dxx_state
     \<Rightarrow> exn + dxx_state" where
  "dxx_loop junk1 junk2 L tr [] st = Inr st"
| "dxx_loop junk1 junk2 L tr (z # zs) st =
     (case dxx_body junk1 junk2 L tr z st of
        Inl e \<Rightarrow> Inl e
      | Inr st' \<Rightarrow> dxx_loop junk1 junk2 L tr zs st')"

text \<open>\<^verbatim>\<open>layout.nonzero(as_tuple=False)\<close> when \<open>trans\<close>, and
  \<^verbatim>\<open>layout.transpose(1, 2).nonzero(as_tuple=False)\<close> otherwise: the index triples of
  the nonzero entries, in row-major order of the tensor searched.\<close>

definition nonzero_triples :: "layout3 \<Rightarrow> bool \<Rightarrow> (nat \<times> nat \<times> nat) list" where
  "nonzero_triples L tr =
     (if tr
      then [(z, r, c). z \<leftarrow> [0..<size0 L], r \<leftarrow> [0..<size1 L], c \<leftarrow> [0..<size2 L],
                       layout_at L z r c \<noteq> 0]
      else [(z, c, r). z \<leftarrow> [0..<size0 L], c \<leftarrow> [0..<size2 L], r \<leftarrow> [0..<size1 L],
                       layout_at L z r c \<noteq> 0])"

text \<open>\<^verbatim>\<open>x = y.clone(); x[1:] -= y[:-1]\<close>: each element less its predecessor.\<close>

definition adjacent_diff :: "int list \<Rightarrow> int list" where
  "adjacent_diff ys =
     (case ys of [] \<Rightarrow> [] | y # rest \<Rightarrow> y # map (\<lambda>p. fst p - snd p) (zip rest (butlast ys)))"

text \<open>A two-dimensional tensor: its number of columns and its rows.\<close>

record matrix =
  ncols :: nat
  rows :: "int list list"

text \<open>\<^verbatim>\<open>x.view(-1, 1).repeat(1, div)\<close>; a negative count raises.\<close>

definition repeat_cols :: "int \<Rightarrow> int list \<Rightarrow> exn + matrix" where
  "repeat_cols d xs =
     (if d < 0 then Inl NegativeDimension
      else Inr \<lparr>ncols = nat d, rows = map (\<lambda>x. replicate (nat d) x) xs\<rparr>)"

text \<open>\<^verbatim>\<open>m[:, 1:] = v\<close>.\<close>

definition fill_from1 :: "int \<Rightarrow> matrix \<Rightarrow> matrix" where
  "fill_from1 v m = m\<lparr>rows := map (\<lambda>row. take 1 row @ replicate (length row - 1) v) (rows m)\<rparr>"

text \<open>\<^verbatim>\<open>m[:, 0] -= v\<close>; a tensor without columns has no column 0.\<close>

definition sub_col0 :: "int \<Rightarrow> matrix \<Rightarrow> exn + matrix" where
  "sub_col0 v m =
     (if ncols m = 0 then Inl IndexError
      else Inr (m\<lparr>rows := map (\<lambda>row. case row of [] \<Rightarrow> [] | x # rest \<Rightarrow> (x - v) # rest)
                             (rows m)\<rparr>))"

text \<open>\<^verbatim>\<open>t[ind]\<close> with an index tensor: every index is normalised as in Python.\<close>

fun tensor_index :: "int list \<Rightarrow> int list \<Rightarrow> exn + int list" where
  "tensor_index t [] = Inr []"
| "tensor_index t (i # ind) =
     (case py_index t i of
        Inl e \<Rightarrow> Inl e
      | Inr v \<Rightarrow> (case tensor_index t ind of Inl e \<Rightarrow> Inl e | Inr vs \<Rightarrow> Inr (v # vs)))"

text \<open>\<^verbatim>\<open>m[ind, 0] = vals\<close> with an index tensor, one row after the other.\<close>

fun put_col0 :: "(int \<times> int) list \<Rightarrow> int list list \<Rightarrow> exn + int list list" where
  "put_col0 [] rs = Inr rs"
| "put_col0 (iv # ivs) rs =
     (case index_norm (length rs) (fst iv) of
        Inl e \<Rightarrow> Inl e
      | Inr k \<Rightarrow>
          put_col0 ivs (rs[k := (case rs ! k of [] \<Rightarrow> [] | x # rest \<Rightarrow> snd iv # rest)]))"

text \<open>\<^verbatim>\<open>layoutw[layoutw > 0] = 1 + torch.arange(msum)\<close> on the entries of one slice in
  row-major order: the positive entries are numbered from 1. \<^verbatim>\<open>torch.arange\<close> raises
  on a negative bound, and the assignment raises unless there are \<open>msum\<close> positive
  entries or the one value \<open>1\<close> is broadcast.\<close>

fun number_positive :: "int \<Rightarrow> int list \<Rightarrow> int list" where
  "number_positive k [] = []"
| "number_positive k (v # vs) =
     (if v > 0 then k # number_positive (k + 1) vs else v # number_positive k vs)"

definition renumber :: "int list \<Rightarrow> int \<Rightarrow> exn + int list" where
  "renumber layoutw msum =
     (if msum < 0 then Inl ArangeBounds
      else if int (length (filter (\<lambda>v. v > 0) layoutw)) = msum
        then Inr (number_positive 1 layoutw)
      else if msum = 1 then Inr (map (\<lambda>v. if v > 0 then 1 else v) layoutw)
      else Inl ShapeMismatch)"

text \<open>The loop that builds \<open>widx\<close> when \<open>trans\<close> is false: for each slice,
  \<^verbatim>\<open>layoutw.T[layoutw.T > 0] - 1\<close> shifted by the running offset. The state is
  \<open>(widx, current_offset)\<close>.\<close>

fun widx_loop :: "layout3 \<Rightarrow> nat list \<Rightarrow> int list \<times> int \<Rightarrow> exn + (int list \<times> int)" where
  "widx_loop L [] st = Inr st"
| "widx_loop L (z # zs) st =
     (let H = size1 L; W = size2 L;
          layoutw = [layout_at L z r c. r \<leftarrow> [0..<H], c \<leftarrow> [0..<W]];
          msum = sum_list layoutw
      in case renumber layoutw msum of
           Inl e \<Rightarrow> Inl e
         | Inr numbered \<Rightarrow>
             widx_loop L zs
               (fst st @ [snd st + v - 1. c \<leftarrow> [0..<W], r \<leftarrow> [0..<H],
                                           v \<leftarrow> [numbered ! (r * W + c)], v > 0],
                snd st + msum))"

text \<open>\<^verbatim>\<open>torch.stack(ts, dim=1).view(-1)\<close>: the vectors interleaved; vectors of
  different sizes raise.\<close>

definition stack_flat :: "int list list \<Rightarrow> exn + int list" where
  "stack_flat ts =
     (if \<exists>t\<in>set ts. length t \<noteq> length (hd ts) then Inl ShapeMismatch
      else Inr (concat (transpose ts)))"

text \<open>\<^verbatim>\<open>t.type(torch.int32)\<close> keeps the low 32 bits, read as a signed number.\<close>

definition to_int32 :: "int \<Rightarrow> int" where
  "to_int32 x = (x + 2147483648) mod 4294967296 - 2147483648"

text \<open>\<^verbatim>\<open>make_dxx_lut(layout, block, step, trans, device)\<close>, with \<open>transform\<close> left at
  its default, the identity, as in every call of the file. The result is
  \<open>(lut, num_locks, width)\<close>; the fourth component of the source's tuple is always
  \<open>None\<close>. The header of \<open>lut\<close> has six numbers per segment: offset, size, column,
  depth, lock id and \<open>maxid\<close>.\<close>

definition make_dxx_lut ::
  "(nat \<Rightarrow> nat \<Rightarrow> int) \<Rightarrow> (nat \<Rightarrow> nat \<Rightarrow> int) \<Rightarrow> layout3 \<Rightarrow> int \<Rightarrow> int \<Rightarrow> bool
     \<Rightarrow> exn + (int list \<times> int \<times> nat)" where
  "make_dxx_lut junk1 junk2 L blk step tr =
     (case dxx_loop junk1 junk2 L tr [0..<size0 L]
             \<lparr>lut_segments = [], lut_column = [], lut_depth = [], lut_lockid = [],
              lut_maxid = [], lut_offsets = [], current_offset = 0, current_maxid = 0\<rparr> of
        Inl e \<Rightarrow> Inl e
      | Inr st \<Rightarrow>
     (let segments1 = map (\<lambda>s. s * step) (lut_segments st);
          nnz = nonzero_triples L tr;
          num_blocks = int (length nnz);
          offsets1 = map (\<lambda>off. min off (num_blocks - 1)) (lut_offsets st);
          idx = map (\<lambda>t. int (snd (snd t)) * blk) nnz;
          xincs0 = adjacent_diff idx
      in if step = 0 then Inl ZeroDivision
         else
     (let d = blk div step
      in case repeat_cols d xincs0 of
        Inl e \<Rightarrow> Inl e
      | Inr xm \<Rightarrow>
     (case sub_col0 ((d - 1) * step) (fill_from1 step xm) of
        Inl e \<Rightarrow> Inl e
      | Inr xm1 \<Rightarrow>
     (let sel = map snd (filter (\<lambda>p. fst p > 0) (zip segments1 offsets1))
      in case tensor_index idx sel of
        Inl e \<Rightarrow> Inl e
      | Inr xvals \<Rightarrow>
     (case put_col0 (zip sel xvals) (rows xm1) of
        Inl e \<Rightarrow> Inl e
      | Inr xrows \<Rightarrow>
     (let xincs = concat xrows
      in case (if tr then Inr (map int [0..<length nnz])
               else (case widx_loop L [0..<size0 L] ([], 0) of
                       Inl e \<Rightarrow> Inl e
                     | Inr ws \<Rightarrow> Inr (fst ws))) of
        Inl e \<Rightarrow> Inl e
      | Inr widx \<Rightarrow>
     (let wincs0 = adjacent_diff (map (\<lambda>w. w * blk * blk) widx)
      in case repeat_cols d wincs0 of
        Inl e \<Rightarrow> Inl e
      | Inr wm \<Rightarrow>
     (case (if tr then sub_col0 ((d - 1) * step) (fill_from1 step wm)
            else sub_col0 ((d - 1) * step * blk) (fill_from1 (step * blk) wm)) of
        Inl e \<Rightarrow> Inl e
      | Inr wm1 \<Rightarrow>
     (case tensor_index widx sel of
        Inl e \<Rightarrow> Inl e
      | Inr wvals \<Rightarrow>
     (case put_col0 (zip sel wvals) (rows wm1) of
        Inl e \<Rightarrow> Inl e
      | Inr wrows \<Rightarrow>
     (let wincs = concat wrows;
          offsets2 = map (\<lambda>off. off * (2 * d)) offsets1;
          segments2 = map (\<lambda>s. s * d) segments1;
          width = length (lut_column st);
          offsets3 = map (\<lambda>off. off + 6 * int width) offsets2
      in case stack_flat [offsets3, segments2, lut_column st, lut_depth st,
                          lut_lockid st, lut_maxid st] of
        Inl e \<Rightarrow> Inl e
      | Inr header \<Rightarrow>
     (case stack_flat [xincs, wincs] of
        Inl e \<Rightarrow> Inl e
      | Inr incs0 \<Rightarrow>
     (let incs = incs0 @ [0, 0];
          lut = map to_int32 (header @ incs)
      in case tensor_max (lut_lockid st) of
        Inl e \<Rightarrow> Inl e
      | Inr max_lock \<Rightarrow> Inr (lut, max 1 max_lock, width)))))))))))))))"

text \<open>The header record of segment \<open>k\<close> in a look-up table, and its depth and lock id.\<close>

definition header_of :: "int list \<Rightarrow> nat \<Rightarrow> int list" where
  "header_of lut k = take 6 (drop (6 * k) lut)"


definition lockid_of :: "int list \<Rightarrow> nat \<Rightarrow> int" where
  "lockid_of lut k = lut ! (6 * k + 4)"

text \<open>Memory of zeros for every slice, and a well-formed binary layout: as many entries as
  the sizes say, each 0 or 1.\<close>

definition zero_mems :: "nat \<Rightarrow> nat \<Rightarrow> int" where
  "zero_mems z k = 0"

definition binary_layout :: "layout3 \<Rightarrow> bool" where
  "binary_layout L =
     (length (cells3 L) = size0 L * size1 L * size2 L
      \<and> list_all (\<lambda>x. x = 0 \<or> x = 1) (cells3 L))"

subsection \<open>Gradient dispatch\<close>

text \<open>The three functions of the dictionary \<^verbatim>\<open>_matmul.fn\<close>, the tensors
  \<^verbatim>\<open>backward\<close> passes to them (\<open>a\<close> and \<open>b\<close> saved by \<^verbatim>\<open>forward\<close>, the incoming
  gradient \<open>dc\<close>) and the look-up tables of the context.\<close>

datatype kernel_fn = Sdd_matmul | Dsd_matmul | Dds_matmul

datatype operand = Saved_a | Saved_b | Grad_dc

datatype lut_of = Da_lut | Db_lut

text \<open>A call \<^verbatim>\<open>_matmul.fn[mode](a, b, trans_a, trans_b, trans_c, ..., lut, ...)\<close>.\<close>

record kernel_call =
  called :: kernel_fn
  arg_a :: operand
  arg_b :: operand
  arg_trans_a :: bool
  arg_trans_b :: bool
  arg_trans_c :: bool
  arg_lut :: lut_of

record ctx =
  ctx_mode :: string
  ctx_trans_a :: bool
  ctx_trans_b :: bool
  needs_input_grad :: "bool \<times> bool"

text \<open>\<^verbatim>\<open>fn = {'sdd': sdd_matmul, 'dsd': dsd_matmul, 'dds': dds_matmul}\<close>; a missing
  key raises KeyError.\<close>

definition fn :: "string \<Rightarrow> exn + kernel_fn" where
  "fn key =
     (if key = ''sdd'' then Inr Sdd_matmul
      else if key = ''dsd'' then Inr Dsd_matmul
      else if key = ''dds'' then Inr Dds_matmul
      else Inl (KeyError key))"

text \<open>\<^verbatim>\<open>mode[i] + mode[j] + mode[k]\<close>.\<close>

definition mode_chars :: "string \<Rightarrow> int \<Rightarrow> int \<Rightarrow> int \<Rightarrow> exn + string" where
  "mode_chars m i j k =
     (case py_index m i of Inl e \<Rightarrow> Inl e | Inr ci \<Rightarrow>
      case py_index m j of Inl e \<Rightarrow> Inl e | Inr cj \<Rightarrow>
      case py_index m k of Inl e \<Rightarrow> Inl e | Inr ck \<Rightarrow> Inr [ci, cj, ck])"

text \<open>\<^verbatim>\<open>backward(ctx, dc)\<close>: the calls that compute \<open>da\<close> and \<open>db\<close>, \<open>None\<close> for a
  gradient that is not needed. What the called function computes is outside the
  model.\<close>

definition backward :: "ctx \<Rightarrow> exn + (kernel_call option \<times> kernel_call option)" where
  "backward c =
     (let mode = ctx_mode c
      in case (if fst (needs_input_grad c)
               then (case mode_chars mode 1 0 2 of Inl e \<Rightarrow> Inl e | Inr mode_da \<Rightarrow>
                     case fn mode_da of Inl e \<Rightarrow> Inl e | Inr f \<Rightarrow>
                       Inr (Some \<lparr>called = f, arg_a = Grad_dc, arg_b = Saved_b,
                                  arg_trans_a = False, arg_trans_b = (\<not> ctx_trans_b c),
                                  arg_trans_c = ctx_trans_a c, arg_lut = Da_lut\<rparr>))
               else Inr None) of
           Inl e \<Rightarrow> Inl e
         | Inr da \<Rightarrow>
     (case (if snd (needs_input_grad c)
            then (case mode_chars mode 2 1 0 of Inl e \<Rightarrow> Inl e | Inr mode_db \<Rightarrow>
                  case fn mode_db of Inl e \<Rightarrow> Inl e | Inr f \<Rightarrow>
                    Inr (Some \<lparr>called = f, arg_a = Saved_a, arg_b = Grad_dc,
                               arg_trans_a = (\<not> ctx_trans_a c), arg_trans_b = False,
                               arg_trans_c = ctx_trans_b c, arg_lut = Db_lut\<rparr>))
            else Inr None) of
        Inl e \<Rightarrow> Inl e
      | Inr db \<Rightarrow> Inr (da, db)))"

subsection \<open>Construction and validation\<close>

text \<open>The attributes of a \<^verbatim>\<open>matmul\<close> object. The three attributes that
  \<^verbatim>\<open>__init__\<close> sets only for the dense-output modes are optional.\<close>

record matmul =
  block :: int
  mode :: string
  trans_a :: bool
  trans_b :: bool
  dense_inner_dim :: "int option"
  dense_inner_size :: "int option"
  sparse_shape :: "int list option"
  self_layout :: layout
  spdims :: "nat list"

text \<open>\<^verbatim>\<open>matmul.__init__(self, layout, block, mode, trans_a, trans_b)\<close>. The
  \<^verbatim>\<open>assert\<close> raises AssertionError.\<close>

definition matmul_init :: "layout \<Rightarrow> int \<Rightarrow> string \<Rightarrow> bool \<Rightarrow> bool \<Rightarrow> exn + matmul" where
  "matmul_init L blk md ta tb =
     (if md \<notin> set [''sdd'', ''dsd'', ''dds''] then Inl NotImplementedError
      else
        (let layout_dim = length (shape L)
         in if layout_dim \<notin> {2, 3} then Inl AssertionError
            else
              (case (if md \<noteq> ''sdd''
                     then
                       (let trans_dense = (if md = ''dsd'' then tb else ta);
                            trans_sparse = (if md = ''dsd'' then ta else tb);
                            sparse_inner = (if md = ''dsd'' then - 1 else - 2 :: int);
                            dim = (if \<not> trans_dense then - ((sparse_inner mod 2) + 1)
                                   else sparse_inner);
                            sparse_inner' = (if \<not> trans_sparse then sparse_inner
                                             else - ((sparse_inner mod 2) + 1))
                        in case py_index (shape L) sparse_inner' of
                             Inl e \<Rightarrow> Inl e
                           | Inr n \<Rightarrow>
                               Inr (Some dim, Some (int n * blk),
                                    Some [sum_list (entries L), blk, blk]))
                     else Inr (None, None, None)) of
                 Inl e \<Rightarrow> Inl e
               | Inr attrs \<Rightarrow>
                   (let L' = (if layout_dim = 2 then L\<lparr>shape := 1 # shape L\<rparr> else L)
                    in Inr \<lparr>block = blk, mode = md, trans_a = ta, trans_b = tb,
                            dense_inner_dim = fst attrs,
                            dense_inner_size = fst (snd attrs),
                            sparse_shape = snd (snd attrs),
                            self_layout = L', spdims = shape L'\<rparr>))))"

text \<open>\<^verbatim>\<open>add_extra_dims(x)\<close>, local to \<^verbatim>\<open>_validate_inputs\<close>.\<close>

definition add_extra_dims :: "tensor \<Rightarrow> exn + tensor" where
  "add_extra_dims x =
     (let dims_needed = 4 - int (length (shape x))
      in if dims_needed > 0 then Inr (x\<lparr>shape := replicate (nat dims_needed) 1 @ shape x\<rparr>)
         else if dims_needed < 0 then Inl (ValueError TooManyDims)
         else Inr x)"

text \<open>\<^verbatim>\<open>x.half()\<close>.\<close>

definition half :: "tensor \<Rightarrow> tensor" where
  "half x = x\<lparr>dtype := ''torch.float16''\<rparr>"

text \<open>\<^verbatim>\<open>matmul._validate_inputs(self, a, b)\<close>; \<open>autocast\<close> is
  \<^verbatim>\<open>torch.is_autocast_enabled()\<close>. Reading an attribute that \<^verbatim>\<open>__init__\<close> did not
  set raises AttributeError.\<close>

definition validate_inputs :: "matmul \<Rightarrow> bool \<Rightarrow> tensor \<Rightarrow> tensor \<Rightarrow> exn + (tensor \<times> tensor)" where
  "validate_inputs self autocast a0 b0 =
     (if device a0 \<noteq> device b0 then Inl (ValueError (DeviceMismatch (device a0) (device b0)))
      else if \<not> is_cuda a0 then Inl (ValueError NotCuda)
      else if \<not> autocast \<and> dtype a0 \<noteq> dtype b0
        then Inl (ValueError (DtypeMismatch (dtype a0) (dtype b0)))
      else
        (let a = (if autocast then half a0 else a0);
             b = (if autocast then half b0 else b0)
         in case (if mode self \<noteq> ''sdd''
                  then
                    (let dense = (if mode self = ''dds'' then a else b);
                         dense_name = (if mode self = ''dds'' then ''A'' else ''B'');
                         sparse = (if mode self = ''dds'' then b else a);
                         sparse_name = (if mode self = ''dds'' then ''B'' else ''A'')
                     in case dense_inner_dim self of
                          None \<Rightarrow> Inl AttributeError
                        | Some dim \<Rightarrow>
                      (case py_index (shape dense) dim of
                          Inl e \<Rightarrow> Inl e
                        | Inr dense_inner \<Rightarrow>
                      (case dense_inner_size self of
                          None \<Rightarrow> Inl AttributeError
                        | Some expected_size \<Rightarrow>
                      (if int dense_inner \<noteq> expected_size
                       then Inl (ValueError (DenseInnerMismatch dense_name expected_size
                                   (dim mod int (length (shape dense))) dense_inner))
                       else
                      (case sparse_shape self of
                          None \<Rightarrow> Inl AttributeError
                        | Some expected \<Rightarrow>
                      (if map int (py_slice_from (shape sparse) (- int (length expected)))
                            \<noteq> expected
                       then Inl (ValueError (SparseShapeMismatch expected sparse_name
                                   (shape sparse)))
                       else Inr ()))))))
                  else Inr ()) of
              Inl e \<Rightarrow> Inl e
            | Inr ok \<Rightarrow>
                (case add_extra_dims a of
                   Inl e \<Rightarrow> Inl e
                 | Inr a' \<Rightarrow>
                     (case add_extra_dims b of
                        Inl e \<Rightarrow> Inl e
                      | Inr b' \<Rightarrow> Inr (a', b')))))"

text \<open>The shape constraints at the head of
  \<^verbatim>\<open>sdd_matmul(a, b, trans_a, trans_b, trans_c, ...)\<close>, on the shapes of \<open>a\<close> and
  \<open>b\<close>. The result is the reduction size \<open>Ka\<close> with which the kernels are then
  launched; the allocation and the launches are outside the model.\<close>

definition sdd_matmul :: "nat list \<Rightarrow> nat list \<Rightarrow> bool \<Rightarrow> bool \<Rightarrow> bool \<Rightarrow> exn + nat" where
  "sdd_matmul a_shape0 b_shape0 trans_a0 trans_b0 trans_c =
     (let a_shape = (if trans_c then b_shape0 else a_shape0);
          b_shape = (if trans_c then a_shape0 else b_shape0);
          tr_a = (if trans_c then \<not> trans_b0 else trans_a0);
          tr_b = (if trans_c then \<not> trans_a0 else trans_b0);
          a_dim = (if tr_a then - 2 else - 1 :: int);
          b_dim = (if tr_b then - 1 else - 2 :: int)
      in case py_index a_shape a_dim of
           Inl e \<Rightarrow> Inl e
         | Inr Ka \<Rightarrow>
             (case py_index b_shape b_dim of
                Inl e \<Rightarrow> Inl e
              | Inr Kb \<Rightarrow>
                  if Ka \<noteq> Kb then Inl (ValueError (InnerDimMismatch Ka Kb))
                  else if Ka mod 16 \<noteq> 0 then Inl (ValueError ReductionNotMultipleOf16)
                  else Inr Ka))"

subsection \<open>Concrete inputs\<close>

text \<open>No lock buffer allocated yet; the layout \<open>[[1,0],[0,1]]\<close>; a layout of two depth
  slices \<open>[[1,0],[0,1]]\<close> and \<open>[[1,1],[1,0]]\<close>; a layout of four depth slices
  \<open>[[-1],[-3]]\<close>, \<open>[[-1],[-3]]\<close>, \<open>[[1],[1]]\<close>, \<open>[[-1],[-3]]\<close>, whose entries are
  not all 0 or 1, and the look-up table built from it, 22 header records of six numbers
  and the increments; a
  layout of one dimension; a half-precision tensor on the first GPU with a given shape.\<close>

definition no_locks :: locks_state where
  "no_locks = \<lparr>locks = Map.empty, fresh = 0\<rparr>"

definition diag_layout :: layout where
  "diag_layout = \<lparr>shape = [2, 2], device = ''cpu'', is_cuda = False,
                   dtype = ''torch.int64'', entries = [1, 0, 0, 1]\<rparr>"

definition two_slices :: layout3 where
  "two_slices = \<lparr>size0 = 2, size1 = 2, size2 = 2, cells3 = [1, 0, 0, 1, 1, 1, 1, 0]\<rparr>"



definition vector_layout :: layout where
  "vector_layout = \<lparr>shape = [4], device = ''cpu'', is_cuda = False,
                     dtype = ''torch.int64'', entries = [1, 0, 0, 1]\<rparr>"

definition gpu_tensor :: "nat list \<Rightarrow> tensor" where
  "gpu_tensor sh = \<lparr>shape = sh, device = ''cuda:0'', is_cuda = True,
                     dtype = ''torch.float16''\<rparr>"

section \<open>Properties of the load balancer\<close>

subsection \<open>Slices and indices in range\<close>

lemma slice_fill_in:
  "0 \<le> a \<Longrightarrow> a \<le> b \<Longrightarrow> b \<le> int (length xs) \<Longrightarrow>
   slice_fill a b v xs = take (nat a) xs @ replicate (nat (b - a)) v @ drop (nat b) xs"
  by (auto simp: slice_fill_def slice_bound_def Let_def min_def nat_diff_distrib)

lemma slice_fill_nat:
  "a + n \<le> length xs \<Longrightarrow>
   slice_fill (int a) (int (a + n)) v xs = take a xs @ replicate n v @ drop (a + n) xs"
  by (subst slice_fill_in) (simp_all add: nat_int_add)

lemma index_set_in:
  "k < length xs \<Longrightarrow> index_set (int k) v xs = Inr (take k xs @ v # drop (Suc k) xs)"
  by (simp add: index_set_def index_norm_def upd_conv_take_nth_drop)

lemma index_add_in:
  "k < length xs \<Longrightarrow>
   index_add (int k) v xs = Inr (take k xs @ (xs ! k + v) # drop (Suc k) xs)"
  by (simp add: index_add_def index_norm_def upd_conv_take_nth_drop)

lemma seg_min_small: "0 < m \<Longrightarrow> m < 4 \<Longrightarrow> max (cdiv m 4) 4 = 4"
  by (simp add: cdiv_def max_def)

lemma seg_min_le: "4 \<le> m \<Longrightarrow> max (cdiv m 4) 4 \<le> m"
  unfolding cdiv_def max_def by (simp; linarith)

text \<open>The loop body when the column gets no lock.\<close>

lemma lb_body_unlocked:
  assumes "\<not> (1 < d \<or> (d = 1 \<and> sm \<le> r))"
  shows "lb_body m sm (s, d, r) st =
     (case (if r < sm \<and> \<not> s < sm
            then index_add (current st + d - 1) r (slice_fill (current st) (current st + d) m (segments st))
            else Inr (slice_fill (current st) (current st + d) m (segments st))) of
        Inl e \<Rightarrow> Inl e
      | Inr segments2 \<Rightarrow>
          (case (if sm \<le> r \<or> s < sm then index_set (current st + d) r segments2
                 else Inr segments2) of
             Inl e \<Rightarrow> Inl e
           | Inr segments3 \<Rightarrow>
               Inr \<lparr>segments = segments3,
                    column = slice_fill (current st)
                       (current st + d + of_bool (sm \<le> r) + of_bool (s < sm))
                       (col_idx st) (column st),
                    lockid = lockid st, maxid = maxid st, nlocks = nlocks st,
                    current = current st + d + of_bool (sm \<le> r) + of_bool (s < sm),
                    col_idx = col_idx st + 1\<rparr>))"
  unfolding lb_body_def Let_def fst_conv snd_conv using assms by (simp only: if_False)

lemma lb_body_full_small:
  assumes m: "0 < m" "m < 4" and c: "current st = int c"
    and len: "c + 2 \<le> length (segments st)" "length (column st) = length (segments st)"
  shows "lb_body m (max (cdiv m 4) 4) (m, m div m, m mod m) st =
     Inr \<lparr>segments = take c (segments st) @ [m, 0] @ drop (c + 2) (segments st),
          column = take c (column st) @ replicate 2 (col_idx st) @ drop (c + 2) (column st),
          lockid = lockid st, maxid = maxid st, nlocks = nlocks st,
          current = int (c + 2), col_idx = col_idx st + 1\<rparr>"
proof -
  have sm: "max (cdiv m 4) 4 = 4" using m by (rule seg_min_small)
  have d: "m div m = 1" "m mod m = 0" using m by simp_all
  have e1: "int c + 1 = int (c + 1)" "int (c + 1) + of_bool ((4::int) \<le> 0) + of_bool (m < 4) = int (c + 2)"
    using m by simp_all
  have s1: "slice_fill (int c) (int (c + 1)) m (segments st)
      = take c (segments st) @ replicate 1 m @ drop (c + 1) (segments st)"
    by (rule slice_fill_nat) (use len in simp)
  have s2: "slice_fill (int c) (int (c + 2)) (col_idx st) (column st)
      = take c (column st) @ replicate 2 (col_idx st) @ drop (c + 2) (column st)"
    by (rule slice_fill_nat) (use len in simp)
  have s3: "index_set (int (c + 1)) 0 (take c (segments st) @ replicate 1 m @ drop (c + 1) (segments st))
      = Inr (take c (segments st) @ [m, 0] @ drop (c + 2) (segments st))"
    using len by (subst index_set_in) (simp_all add: min_def)
  have c1: "\<not> ((0::int) < 4 \<and> \<not> m < 4)" "(4::int) \<le> 0 \<or> m < 4" using m by simp_all
  show ?thesis
    by (subst lb_body_unlocked)
       (simp_all only: sm d c e1 s1 s2 s3 c1 if_True if_False sum.case, simp)
qed

lemma lb_body_full_large:
  assumes m: "4 \<le> m" and c: "current st = int c"
    and len: "c + 1 \<le> length (segments st)" "length (column st) = length (segments st)"
  shows "lb_body m (max (cdiv m 4) 4) (m, m div m, m mod m) st =
     Inr \<lparr>segments = take c (segments st) @ [m] @ drop (c + 1) (segments st),
          column = take c (column st) @ replicate 1 (col_idx st) @ drop (c + 1) (column st),
          lockid = lockid st, maxid = maxid st, nlocks = nlocks st,
          current = int (c + 1), col_idx = col_idx st + 1\<rparr>"
proof -
  define sm where "sm = max (cdiv m 4) 4"
  have sm: "sm \<le> m" "4 \<le> sm" using seg_min_le[OF m] by (auto simp: sm_def)
  have d: "m div m = 1" "m mod m = 0" using m by simp_all
  have e1: "int c + 1 = int (c + 1)" "int (c + 1) - 1 = int c"
    "int (c + 1) + of_bool False + of_bool False = int (c + 1)"
    by simp_all
  have s1: "slice_fill (int c) (int (c + 1)) m (segments st)
      = take c (segments st) @ replicate 1 m @ drop (c + 1) (segments st)"
    by (rule slice_fill_nat) (use len in simp)
  have s2: "slice_fill (int c) (int (c + 1)) (col_idx st) (column st)
      = take c (column st) @ replicate 1 (col_idx st) @ drop (c + 1) (column st)"
    by (rule slice_fill_nat) (use len in simp)
  have s3: "index_add (int c) 0 (take c (segments st) @ replicate 1 m @ drop (c + 1) (segments st))
      = Inr (take c (segments st) @ [m] @ drop (c + 1) (segments st))"
    using len by (subst index_add_in) (simp_all add: min_def nth_append)
  have c1: "(0::int) < sm" "\<not> m < sm" "\<not> sm \<le> 0" "\<not> 1 < (1::int)"
    using sm by simp_all
  show ?thesis
    unfolding sm_def[symmetric]
    by (subst lb_body_unlocked)
       (simp_all only: d c e1 s1 s2 s3 c1 simp_thms if_True if_False sum.case)
qed

lemma lb_body_partial:
  assumes m: "0 \<le> s" "s < m" and c: "current st = int c"
    and len: "c + 1 \<le> length (segments st)" "length (column st) = length (segments st)"
  shows "lb_body m (max (cdiv m 4) 4) (s, s div m, s mod m) st =
     Inr \<lparr>segments = take c (segments st) @ [s] @ drop (c + 1) (segments st),
          column = take c (column st) @ replicate 1 (col_idx st) @ drop (c + 1) (column st),
          lockid = lockid st, maxid = maxid st, nlocks = nlocks st,
          current = int (c + 1), col_idx = col_idx st + 1\<rparr>"
proof -
  define sm where "sm = max (cdiv m 4) 4"
  have d: "s div m = 0" "s mod m = s" using m by simp_all
  have e1: "int c + 0 = int (c + 0)" "int (c + 0) + of_bool (sm \<le> s) + of_bool (s < sm) = int (c + 1)"
    by simp_all
  have s1: "slice_fill (int c) (int (c + 0)) m (segments st) = segments st"
    using len by (subst slice_fill_nat) simp_all
  have s2: "slice_fill (int c) (int (c + 1)) (col_idx st) (column st)
      = take c (column st) @ replicate 1 (col_idx st) @ drop (c + 1) (column st)"
    by (rule slice_fill_nat) (use len in simp)
  have s3: "index_set (int (c + 0)) s (segments st)
      = Inr (take c (segments st) @ [s] @ drop (c + 1) (segments st))"
    using len by (subst index_set_in) simp_all
  have c1: "\<not> (s < sm \<and> \<not> s < sm)" "sm \<le> s \<or> s < sm"
    "\<not> 1 < (0::int)" "(0::int) \<noteq> 1" by auto
  show ?thesis
    unfolding sm_def[symmetric]
    by (subst lb_body_unlocked)
       (simp_all only: d c e1 s1 s2 s3 c1 simp_thms if_True if_False sum.case)
qed

lemma lb_body_col:
  assumes m: "0 < m" "0 \<le> s" "s \<le> m" and c: "current st = int c"
    and len: "c + length (col_segs m s) \<le> length (segments st)"
             "length (column st) = length (segments st)"
  shows "lb_body m (max (cdiv m 4) 4) (s, s div m, s mod m) st =
     Inr \<lparr>segments = take c (segments st) @ col_segs m s
                      @ drop (c + length (col_segs m s)) (segments st),
          column = take c (column st) @ replicate (length (col_segs m s)) (col_idx st)
                      @ drop (c + length (col_segs m s)) (column st),
          lockid = lockid st, maxid = maxid st, nlocks = nlocks st,
          current = int (c + length (col_segs m s)), col_idx = col_idx st + 1\<rparr>"
proof -
  consider (small) "s = m" "m < 4" | (large) "s = m" "4 \<le> m" | (partial) "s < m"
    using m by linarith
  then show ?thesis
  proof cases
    case small
    then have k: "col_segs m m = [m, 0]" by (simp add: col_segs_def)
    have len2: "c + 2 \<le> length (segments st)" using len k small by simp
    show ?thesis
      unfolding k small(1) using lb_body_full_small[OF m(1) small(2) c len2 len(2)]
      by (simp add: numeral_2_eq_2)
  next
    case large
    then have k: "col_segs m m = [m]" by (simp add: col_segs_def)
    have len2: "c + 1 \<le> length (segments st)" using len k large by simp
    show ?thesis
      unfolding k large(1) using lb_body_full_large[OF large(2) c len2 len(2)] by simp
  next
    case partial
    then have k: "col_segs m s = [s]" by (simp add: col_segs_def)
    have len2: "c + 1 \<le> length (segments st)" using len k by simp
    show ?thesis
      unfolding k using lb_body_partial[OF m(2) partial c len2 len(2)] by simp
  qed
qed

lemma length_col_ids: "length (col_ids j m ss) = length (all_segs m ss)"
  by (induction ss arbitrary: j) (simp_all add: all_segs_def)

lemma lb_loop_inv:
  assumes "0 < m" "\<forall>s\<in>set ss. 0 \<le> s \<and> s \<le> m" "current st = int c"
    "c + length (all_segs m ss) \<le> length (segments st)"
    "length (column st) = length (segments st)"
  shows "lb_loop m (max (cdiv m 4) 4) (map (\<lambda>s. (s, s div m, s mod m)) ss) st =
     Inr \<lparr>segments = take c (segments st) @ all_segs m ss
                      @ drop (c + length (all_segs m ss)) (segments st),
          column = take c (column st) @ col_ids (col_idx st) m ss
                      @ drop (c + length (all_segs m ss)) (column st),
          lockid = lockid st, maxid = maxid st, nlocks = nlocks st,
          current = int (c + length (all_segs m ss)),
          col_idx = col_idx st + int (length ss)\<rparr>"
  using assms
proof (induction ss arbitrary: st c)
  case Nil
  then show ?case by (simp add: all_segs_def)
next
  case (Cons s ss)
  let ?k = "length (col_segs m s)"
  let ?n = "length (all_segs m ss)"
  let ?st1 = "\<lparr>segments = take c (segments st) @ col_segs m s @ drop (c + ?k) (segments st),
          column = take c (column st) @ replicate ?k (col_idx st) @ drop (c + ?k) (column st),
          lockid = lockid st, maxid = maxid st, nlocks = nlocks st,
          current = int (c + ?k), col_idx = col_idx st + 1\<rparr>"
  have tot: "length (all_segs m (s # ss)) = ?k + ?n" by (simp add: all_segs_def)
  have len: "c + ?k + ?n \<le> length (segments st)" using Cons.prems(4) tot by simp
  have body: "lb_body m (max (cdiv m 4) 4) (s, s div m, s mod m) st = Inr ?st1"
    using Cons.prems len by (intro lb_body_col) simp_all
  have lens: "length (segments ?st1) = length (segments st)"
             "length (column ?st1) = length (segments st)"
    using len Cons.prems(5) by simp_all
  have ih: "lb_loop m (max (cdiv m 4) 4) (map (\<lambda>s. (s, s div m, s mod m)) ss) ?st1 =
     Inr \<lparr>segments = take (c + ?k) (segments ?st1) @ all_segs m ss
                      @ drop (c + ?k + ?n) (segments ?st1),
          column = take (c + ?k) (column ?st1) @ col_ids (col_idx ?st1) m ss
                      @ drop (c + ?k + ?n) (column ?st1),
          lockid = lockid ?st1, maxid = maxid ?st1, nlocks = nlocks ?st1,
          current = int (c + ?k + ?n),
          col_idx = col_idx ?st1 + int (length ss)\<rparr>"
    using Cons.prems(1,2) len lens by (intro Cons.IH) simp_all
  have mc: "min (length (segments st)) c = c" "min (length (column st)) c = c"
    using len Cons.prems(5) by simp_all
  have t1: "take (c + ?k) (segments ?st1) = take c (segments st) @ col_segs m s"
           "take (c + ?k) (column ?st1) = take c (column st) @ replicate ?k (col_idx st)"
    by (simp_all add: mc)
  have d1: "drop (c + ?k + ?n) (segments ?st1) = drop (c + ?k + ?n) (segments st)"
           "drop (c + ?k + ?n) (column ?st1) = drop (c + ?k + ?n) (column st)"
    by (simp_all add: mc add.commute add.left_commute)
  show ?case
    unfolding list.map lb_loop.simps body sum.case ih t1 d1 tot
    by (simp add: all_segs_def add.assoc)
qed

lemma zip_div_mod:
  "zip ss (zip (map f ss) (map g ss)) = map (\<lambda>s. (s, f s, g s)) ss"
  by (induction ss) simp_all

lemma packs_col:
  assumes "0 < m" "0 \<le> s" "s \<le> m"
  shows "s div m + of_bool (s < max (cdiv m 4) 4) + of_bool (max (cdiv m 4) 4 \<le> s mod m)
         = int (length (col_segs m s))"
proof -
  consider (small) "s = m" "m < 4" | (large) "s = m" "4 \<le> m" | (partial) "s < m"
    using assms by linarith
  then show ?thesis
  proof cases
    case small
    then show ?thesis using assms seg_min_small[of m] by (simp add: col_segs_def)
  next
    case large
    then have "\<not> m < max (cdiv m 4) 4" "\<not> max (cdiv m 4) 4 \<le> 0"
      using seg_min_le[of m] by auto
    with large show ?thesis
      by (simp add: col_segs_def del: max_less_iff_conj less_max_iff_disj max.bounded_iff)
  next
    case partial
    then have "s div m = 0" "s mod m = s" using assms by simp_all
    with partial show ?thesis
      by (cases "s < max (cdiv m 4) 4")
         (simp_all add: col_segs_def del: max_less_iff_conj less_max_iff_disj max.bounded_iff)
  qed
qed

lemma packs_sum:
  assumes "0 < m" "\<forall>s\<in>set ss. 0 \<le> s \<and> s \<le> m"
  shows "sum_list (packs (max (cdiv m 4) 4) ss (map (\<lambda>x. x div m) ss) (map (\<lambda>x. x mod m) ss))
         = int (length (all_segs m ss))"
  using assms(2)
proof (induction ss)
  case Nil
  then show ?case by (simp add: packs_def all_segs_def)
next
  case (Cons s ss)
  then have "sum_list (packs (max (cdiv m 4) 4) ss (map (\<lambda>x. x div m) ss) (map (\<lambda>x. x mod m) ss))
         = int (length (all_segs m ss))" by simp
  moreover have "s div m + of_bool (s < max (cdiv m 4) 4) + of_bool (max (cdiv m 4) 4 \<le> s mod m)
         = int (length (col_segs m s))"
    using Cons.prems assms(1) by (intro packs_col) simp_all
  ultimately show ?case
    unfolding packs_def all_segs_def by (simp add: zip_div_mod)
qed

lemma load_balance_eq:
  assumes nonneg: "\<forall>s\<in>set sizes. 0 \<le> s" and nz: "\<exists>s\<in>set sizes. s \<noteq> 0"
  shows "load_balance junk1 junk2 sizes =
     Inr (all_segs (Max (set sizes)) sizes, col_ids 0 (Max (set sizes)) sizes,
          replicate (length (all_segs (Max (set sizes)) sizes)) 0,
          replicate (length (all_segs (Max (set sizes)) sizes)) 0,
          lb_offsets (all_segs (Max (set sizes)) sizes))"
proof -
  define m where "m = Max (set sizes)"
  define W where "W = length (all_segs m sizes)"
  obtain z where z: "z \<in> set sizes" "z \<noteq> 0" using nz by blast
  have ne: "sizes \<noteq> []" using z by auto
  have le: "\<forall>s\<in>set sizes. 0 \<le> s \<and> s \<le> m"
    using nonneg by (simp add: m_def)
  have pos: "0 < m" using z le nonneg by force
  have tmax: "tensor_max sizes = Inr m" using ne by (simp add: tensor_max_def m_def)
  have "filter (\<lambda>s. s \<noteq> 0) sizes \<noteq> []" using z by (auto simp: filter_empty_conv)
  then have tmin: "tensor_min (filter (\<lambda>s. s \<noteq> 0) sizes)
      = Inr (Min (set (filter (\<lambda>s. s \<noteq> 0) sizes)))"
    by (simp add: tensor_min_def)
  have tdiv: "tensor_floordiv sizes m = Inr (map (\<lambda>x. x div m) sizes)"
    and tmod: "tensor_mod sizes m = Inr (map (\<lambda>x. x mod m) sizes)"
    using pos by (simp_all add: tensor_floordiv_def tensor_mod_def)
  have width: "sum_list (packs (max (cdiv m 4) 4) sizes (map (\<lambda>x. x div m) sizes)
      (map (\<lambda>x. x mod m) sizes)) = int W"
    unfolding W_def using pos le by (rule packs_sum)
  have emp: "tensor_empty junk1 (int W) = Inr (map junk1 [0..<W])"
            "tensor_empty junk2 (int W) = Inr (map junk2 [0..<W])"
    by (simp_all add: tensor_empty_def)
  let ?st0 = "\<lparr>segments = map junk1 [0..<W], column = map junk2 [0..<W],
              lockid = replicate (length (map junk1 [0..<W])) 0,
              maxid = replicate (length (map junk1 [0..<W])) 0,
              nlocks = 0, current = 0, col_idx = 0\<rparr>"
  have loop: "lb_loop m (max (cdiv m 4) 4) (map (\<lambda>s. (s, s div m, s mod m)) sizes) ?st0 =
     Inr \<lparr>segments = take 0 (segments ?st0) @ all_segs m sizes
                      @ drop (0 + length (all_segs m sizes)) (segments ?st0),
          column = take 0 (column ?st0) @ col_ids (col_idx ?st0) m sizes
                      @ drop (0 + length (all_segs m sizes)) (column ?st0),
          lockid = lockid ?st0, maxid = maxid ?st0, nlocks = nlocks ?st0,
          current = int (0 + length (all_segs m sizes)),
          col_idx = col_idx ?st0 + int (length sizes)\<rparr>"
    using pos le by (intro lb_loop_inv) (simp_all add: W_def)
  show ?thesis
    unfolding load_balance_def m_def[symmetric] tmax tmin sum.case Let_def tdiv tmod width emp
      zip_div_mod loop
    by (simp add: W_def)
qed

lemma sum_list_all_segs: "sum_list (all_segs m ss) = sum_list ss"
  by (induction ss) (simp_all add: all_segs_def col_segs_def)

lemma all_segs_le:
  assumes "\<forall>s\<in>set ss. 0 \<le> s \<and> s \<le> m" "x \<in> set (all_segs m ss)"
  shows "x \<le> m"
proof -
  obtain s where s: "s \<in> set ss" "x \<in> set (col_segs m s)"
    using assms(2) by (auto simp: all_segs_def)
  then have "0 \<le> s" "s \<le> m" using assms(1) by auto
  with s(2) show ?thesis by (auto simp: col_segs_def split: if_splits)
qed

lemma Max_bounds:
  assumes "\<forall>s\<in>set sizes. 0 \<le> (s::int)" "sizes \<noteq> []"
  shows "\<forall>s\<in>set sizes. 0 \<le> s \<and> s \<le> Max (set sizes)"
  using assms by simp

text \<open>
  Claim C1. For every vector \<open>sizes\<close> of non-negative reduction lengths with at least
  one nonzero entry, \<^verbatim>\<open>load_balance\<close> returns, the segment sizes it returns sum to
  the sum of \<open>sizes\<close>, and no segment size exceeds \<open>max(sizes)\<close>; this holds
  whatever the uninitialised buffers held.
\<close>

theorem load_balance_conserves:
  assumes "\<forall>s\<in>set sizes. 0 \<le> s" and "\<exists>s\<in>set sizes. s \<noteq> 0"
  shows "\<exists>r. load_balance junk1 junk2 sizes = Inr r
           \<and> sum_list (res_segments r) = sum_list sizes
           \<and> (\<forall>x\<in>set (res_segments r). x \<le> Max (set sizes))"
proof -
  have ne: "sizes \<noteq> []" using assms(2) by auto
  have b: "\<forall>s\<in>set sizes. 0 \<le> s \<and> s \<le> Max (set sizes)"
    using assms(1) ne by (rule Max_bounds)
  show ?thesis
    unfolding load_balance_eq[OF assms]
    using all_segs_le[OF b] by (simp add: res_segments_def sum_list_all_segs)
qed

theorem load_balance_conserves_witness:
  "\<exists>r. load_balance zero_mem zero_mem [9, 9, 1] = Inr r
       \<and> sum_list (res_segments r) = 19
       \<and> list_all (\<lambda>x. x \<le> 9) (res_segments r)"
  using load_balance_conserves[of "[9, 9, 1]" zero_mem zero_mem]
  by (simp add: list_all_iff)

subsection \<open>Inputs without a nonzero entry\<close>

lemma load_balance_no_nonzero:
  assumes "\<forall>s\<in>set sizes. s = 0"
  shows "load_balance junk1 junk2 sizes = Inl EmptyReduction"
proof (cases "sizes = []")
  case True
  then show ?thesis by (simp add: load_balance_def tensor_max_def)
next
  case False
  have "filter (\<lambda>s. s \<noteq> 0) sizes = []" using assms by (simp add: filter_empty_conv)
  then show ?thesis using False
    by (simp add: load_balance_def tensor_max_def tensor_min_def)
qed

text \<open>
  Claim C5, as amended. When \<open>sizes\<close> has no nonzero entry (all zeros, or no entry at
  all), \<^verbatim>\<open>load_balance\<close> does not return an empty schedule: it raises the
  RuntimeError of a reduction over no elements, at \<^verbatim>\<open>sizes.max()\<close> for an empty
  vector and at \<^verbatim>\<open>sizes[sizes != 0].min()\<close> otherwise.
\<close>

theorem load_balance_all_zero_raises:
  assumes "\<forall>s\<in>set sizes. s = 0"
  shows "load_balance junk1 junk2 sizes = Inl EmptyReduction"
  using assms by (rule load_balance_no_nonzero)

theorem load_balance_all_zero_raises_witness:
  "load_balance zero_mem zero_mem [0] = Inl EmptyReduction"
  using load_balance_all_zero_raises[of "[0]" zero_mem zero_mem] by simp

text \<open>The claim as stated fails: on three empty columns the call raises instead of
  returning zero segments.\<close>

theorem load_balance_all_zero_counterexample:
  "load_balance zero_mem zero_mem [0, 0, 0] = Inl EmptyReduction"
  by (simp add: load_balance_def tensor_max_def tensor_min_def)

subsection \<open>The segments of each column\<close>

lemma col_ids_ge: "x \<in> set (col_ids j m ss) \<Longrightarrow> j \<le> x"
proof (induction ss arbitrary: j)
  case Nil
  then show ?case by simp
next
  case (Cons s ss)
  then have "x = j \<or> x \<in> set (col_ids (j + 1) m ss)" by (auto split: if_splits)
  then show ?case using Cons.IH[of "j + 1"] by auto
qed

lemma zip_all_segs:
  "zip (all_segs m (s # ss)) (col_ids j m (s # ss)) =
     map (\<lambda>x. (x, j)) (col_segs m s) @ zip (all_segs m ss) (col_ids (j + 1) m ss)"
  by (simp add: all_segs_def zip_replicate2 map_replicate_const[symmetric] zip_map2 zip_same_conv_map)

lemma of_column_all_segs:
  "i < length ss \<Longrightarrow>
   of_column (all_segs m ss) (col_ids j m ss) (j + int i) = col_segs m (ss ! i)"
proof (induction ss arbitrary: i j)
  case Nil
  then show ?case by simp
next
  case (Cons s ss)
  have rest_ge: "\<forall>p\<in>set (zip (all_segs m ss) (col_ids (j + 1) m ss)). j + 1 \<le> snd p"
    using col_ids_ge by (auto dest!: set_zip_rightD)
  show ?case
  proof (cases i)
    case 0
    have "filter (\<lambda>p. snd p = j) (zip (all_segs m ss) (col_ids (j + 1) m ss)) = []"
      using rest_ge by (auto simp: filter_empty_conv)
    then show ?thesis
      unfolding of_column_def zip_all_segs using 0 by (simp add: comp_def)
  next
    case (Suc i')
    then have i': "i' < length ss" using Cons.prems by simp
    have "of_column (all_segs m ss) (col_ids (j + 1) m ss) (j + 1 + int i') = col_segs m (ss ! i')"
      using i' by (rule Cons.IH)
    moreover have "j + int i = j + 1 + int i'" using Suc by simp
    moreover have "filter (\<lambda>p. snd p = j + 1 + int i') (map (\<lambda>x. (x, j)) (col_segs m s)) = []"
      by (simp add: filter_empty_conv)
    ultimately show ?thesis
      unfolding of_column_def zip_all_segs using Suc by (simp add: add.assoc)
  qed
qed

lemma of_column_zeros:
  "of_column (replicate n 0) col i = replicate (length (of_column (replicate n 0) col i)) 0"
  by (rule replicate_eqI) (auto simp: of_column_def dest!: set_zip_leftD)

lemma length_of_column:
  "length xs = length ys \<Longrightarrow> length (of_column xs col i) = length (of_column ys col i)"
proof (induction col arbitrary: xs ys)
  case Nil
  then show ?case by (simp add: of_column_def)
next
  case (Cons c col)
  show ?case
  proof (cases xs)
    case Nil
    then show ?thesis using Cons.prems by (simp add: of_column_def)
  next
    case xs: (Cons x xs')
    then obtain y ys' where ys: "ys = y # ys'" using Cons.prems by (cases ys) auto
    have "length (of_column xs' col i) = length (of_column ys' col i)"
      using Cons.prems xs ys by (intro Cons.IH) simp
    then show ?thesis unfolding xs ys by (simp add: of_column_def)
  qed
qed

lemma length_col_segs: "1 \<le> length (col_segs m s)" "length (col_segs m s) \<le> 2"
  by (simp_all add: col_segs_def)

lemma length_all_segs:
  "length ss \<le> length (all_segs m ss)" "length (all_segs m ss) \<le> 2 * length ss"
  by (induction ss) (simp_all add: all_segs_def col_segs_def)

lemma length_lb_offsets: "length (lb_offsets segs) = length segs"
proof -
  have "length (cumsum_from a xs) = length xs" for a xs
    by (induction xs arbitrary: a) simp_all
  then show ?thesis by (cases segs) (simp_all add: lb_offsets_def cumsum_def)
qed

lemma load_balance_shape:
  assumes "\<forall>s\<in>set sizes. 0 \<le> s" and "\<exists>s\<in>set sizes. s \<noteq> 0"
  obtains r where "load_balance junk1 junk2 sizes = Inr r"
    "res_segments r = all_segs (Max (set sizes)) sizes"
    "res_column r = col_ids 0 (Max (set sizes)) sizes"
    "res_lockid r = replicate (length (res_segments r)) 0"
    "res_maxid r = replicate (length (res_segments r)) 0"
    "res_offsets r = lb_offsets (res_segments r)"
  using load_balance_eq[OF assms, of junk1 junk2]
  by (simp add: res_segments_def res_column_def res_lockid_def res_maxid_def res_offsets_def)

lemma Max_pos:
  assumes "\<forall>s\<in>set sizes. 0 \<le> (s::int)" and "\<exists>s\<in>set sizes. s \<noteq> 0"
  shows "0 < Max (set sizes)"
proof -
  obtain z where z: "z \<in> set sizes" "z \<noteq> 0" using assms(2) by blast
  then have "0 < z" using assms(1) by force
  moreover have "z \<le> Max (set sizes)" using z by simp
  ultimately show ?thesis by linarith
qed

text \<open>
  Claim C10. For every vector \<open>sizes\<close> of non-negative lengths with a nonzero entry,
  \<^verbatim>\<open>load_balance\<close> returns; every quotient \<open>sizes[i] // seg_max\<close> is at most 1;
  every column, also an empty one, gets at least one and at most two segments; a column
  with \<open>sizes[i] = 0\<close> gets exactly one segment, of size 0 and lock id 0; the five
  vectors have one length, which lies between \<open>len(sizes)\<close> and \<open>2 * len(sizes)\<close>.
\<close>

theorem load_balance_per_column:
  assumes "\<forall>s\<in>set sizes. 0 \<le> s" and "\<exists>s\<in>set sizes. s \<noteq> 0"
  shows "\<exists>r. load_balance junk1 junk2 sizes = Inr r
     \<and> (\<forall>i<length sizes.
            sizes ! i div Max (set sizes) \<le> 1
          \<and> 1 \<le> length (of_column (res_segments r) (res_column r) (int i))
          \<and> length (of_column (res_segments r) (res_column r) (int i)) \<le> 2
          \<and> (sizes ! i = 0 \<longrightarrow>
                of_column (res_segments r) (res_column r) (int i) = [0]
              \<and> of_column (res_lockid r) (res_column r) (int i) = [0]))
     \<and> length (res_column r) = length (res_segments r)
     \<and> length (res_lockid r) = length (res_segments r)
     \<and> length (res_maxid r) = length (res_segments r)
     \<and> length (res_offsets r) = length (res_segments r)
     \<and> length sizes \<le> length (res_segments r)
     \<and> length (res_segments r) \<le> 2 * length sizes"
proof -
  define m where "m = Max (set sizes)"
  obtain r where r: "load_balance junk1 junk2 sizes = Inr r"
    "res_segments r = all_segs m sizes" "res_column r = col_ids 0 m sizes"
    "res_lockid r = replicate (length (res_segments r)) 0"
    "res_maxid r = replicate (length (res_segments r)) 0"
    "res_offsets r = lb_offsets (res_segments r)"
    unfolding m_def using assms by (rule load_balance_shape)
  have pos: "0 < m" unfolding m_def using assms by (rule Max_pos)
  have col: "of_column (res_segments r) (res_column r) (int i) = col_segs m (sizes ! i)"
    if "i < length sizes" for i
    unfolding r(2,3) using of_column_all_segs[OF that, of m 0] by simp
  have lock: "of_column (res_lockid r) (res_column r) (int i)
      = replicate (length (col_segs m (sizes ! i))) 0" if "i < length sizes" for i
  proof -
    have "length (of_column (res_lockid r) (res_column r) (int i))
        = length (of_column (res_segments r) (res_column r) (int i))"
      by (rule length_of_column) (simp add: r(4))
    then show ?thesis using col[OF that] of_column_zeros[of "length (res_segments r)"] r(4)
      by metis
  qed
  have quot: "sizes ! i div m \<le> 1" if "i < length sizes" for i
  proof -
    have "sizes ! i \<le> m" unfolding m_def using that by simp
    then have "sizes ! i div m \<le> m div m" using pos by (intro zdiv_mono1) simp_all
    then show ?thesis using pos by simp
  qed
  have zero: "col_segs m 0 = [0]" using pos by (simp add: col_segs_def)
  have per: "\<forall>i<length sizes.
            sizes ! i div m \<le> 1
          \<and> 1 \<le> length (of_column (res_segments r) (res_column r) (int i))
          \<and> length (of_column (res_segments r) (res_column r) (int i)) \<le> 2
          \<and> (sizes ! i = 0 \<longrightarrow>
                of_column (res_segments r) (res_column r) (int i) = [0]
              \<and> of_column (res_lockid r) (res_column r) (int i) = [0])"
    using quot col lock zero length_col_segs by simp
  have lens: "length (res_column r) = length (res_segments r)"
     "length (res_lockid r) = length (res_segments r)"
     "length (res_maxid r) = length (res_segments r)"
     "length (res_offsets r) = length (res_segments r)"
    using r by (simp_all add: length_col_ids length_lb_offsets)
  have tot: "length sizes \<le> length (res_segments r)"
     "length (res_segments r) \<le> 2 * length sizes"
    unfolding r(2) by (rule length_all_segs)+
  show ?thesis
    unfolding m_def[symmetric] using r(1) per lens tot by blast
qed

theorem load_balance_per_column_witness:
  "\<exists>r. load_balance zero_mem zero_mem [3, 0] = Inr r
     \<and> 1 \<le> length (of_column (res_segments r) (res_column r) 0)
     \<and> length (of_column (res_segments r) (res_column r) 0) \<le> 2
     \<and> of_column (res_segments r) (res_column r) 1 = [0]
     \<and> of_column (res_lockid r) (res_column r) 1 = [0]
     \<and> 2 \<le> length (res_segments r) \<and> length (res_segments r) \<le> 4"
proof -
  obtain r where r: "load_balance zero_mem zero_mem [3, 0] = Inr r"
    and per: "\<forall>i<length [3, 0 :: int].
            1 \<le> length (of_column (res_segments r) (res_column r) (int i))
          \<and> length (of_column (res_segments r) (res_column r) (int i)) \<le> 2
          \<and> ([3, 0 :: int] ! i = 0 \<longrightarrow>
                of_column (res_segments r) (res_column r) (int i) = [0]
              \<and> of_column (res_lockid r) (res_column r) (int i) = [0])"
    and tot: "length [3, 0 :: int] \<le> length (res_segments r)"
      "length (res_segments r) \<le> 2 * length [3, 0 :: int]"
    using load_balance_per_column[of "[3, 0]" zero_mem zero_mem] by auto
  have "1 \<le> length (of_column (res_segments r) (res_column r) (int 0))"
    "length (of_column (res_segments r) (res_column r) (int 0)) \<le> 2"
    using per[THEN spec, of 0] by simp_all
  moreover have "of_column (res_segments r) (res_column r) (int 1) = [0]
      \<and> of_column (res_lockid r) (res_column r) (int 1) = [0]"
    using per[THEN spec, of 1] by simp
  ultimately show ?thesis using r tot by auto
qed

subsection \<open>The number of segments\<close>

lemma all_segs_width:
  "0 < m \<Longrightarrow> length (all_segs m ss) \<le> 4 * nonzero_count ss + zero_count ss"
  by (induction ss) (simp_all add: all_segs_def col_segs_def nonzero_count_def zero_count_def)

text \<open>
  Claim C4, as amended. For every vector \<open>sizes\<close> of non-negative lengths with a
  nonzero entry, the number of segments is at most four times the number of nonzero
  entries plus the number of zero entries: a column of length 0 is still one segment.
\<close>

theorem load_balance_width_bound:
  assumes "\<forall>s\<in>set sizes. 0 \<le> s" and "\<exists>s\<in>set sizes. s \<noteq> 0"
  shows "\<exists>r. load_balance junk1 junk2 sizes = Inr r
     \<and> length (res_segments r) \<le> 4 * nonzero_count sizes + zero_count sizes"
proof -
  obtain r where r: "load_balance junk1 junk2 sizes = Inr r"
    "res_segments r = all_segs (Max (set sizes)) sizes"
    using assms by (rule load_balance_shape)
  have "0 < Max (set sizes)" using assms by (rule Max_pos)
  then show ?thesis using r all_segs_width by auto
qed

theorem load_balance_width_bound_witness:
  "\<exists>r. load_balance zero_mem zero_mem [5, 0, 0, 0, 0] = Inr r
     \<and> length (res_segments r) \<le> 8"
  using load_balance_width_bound[of "[5, 0, 0, 0, 0]" zero_mem zero_mem]
  by (simp add: nonzero_count_def zero_count_def)

text \<open>The claim as stated fails: one column of length 5 and four empty columns make five
  segments, more than four times the one nonzero entry.\<close>

theorem load_balance_width_counterexample: "load_balance zero_mem zero_mem [5, 0, 0, 0, 0]
     = Inr ([5, 0, 0, 0, 0], [0, 1, 2, 3, 4], [0, 0, 0, 0, 0], [0, 0, 0, 0, 0], [0, 5, 5, 5, 5])
   \<and> \<not> length [5, 0, 0, 0, 0 :: int] \<le> 4 * nonzero_count [5, 0, 0, 0, 0]"
  by code_simp

subsection \<open>Splitting and locks\<close>

text \<open>
  Claim C2, as amended. With \<open>seg_max = max(sizes)\<close> and
  \<open>seg_min = max(cdiv(seg_max, 4), 4)\<close>, no column is split under a lock: every lock id
  is 0. A column with \<open>sizes[i] \<ge> 2 * seg_min\<close> is exactly one segment, of size
  \<open>sizes[i]\<close> and lock id 0. A column with \<open>sizes[i] < seg_min\<close> that is shorter than
  \<open>max(sizes)\<close> is exactly one segment, of size \<open>sizes[i]\<close> and lock id 0.
\<close>

theorem load_balance_no_split:
  assumes "\<forall>s\<in>set sizes. 0 \<le> s" and "\<exists>s\<in>set sizes. s \<noteq> 0"
  shows "\<exists>r. load_balance junk1 junk2 sizes = Inr r
     \<and> (\<forall>x\<in>set (res_lockid r). x = 0)
     \<and> (\<forall>i<length sizes.
           (2 * max (cdiv (Max (set sizes)) 4) 4 \<le> sizes ! i \<longrightarrow>
              of_column (res_segments r) (res_column r) (int i) = [sizes ! i]
            \<and> of_column (res_lockid r) (res_column r) (int i) = [0])
         \<and> (sizes ! i < max (cdiv (Max (set sizes)) 4) 4 \<and> sizes ! i < Max (set sizes) \<longrightarrow>
              of_column (res_segments r) (res_column r) (int i) = [sizes ! i]
            \<and> of_column (res_lockid r) (res_column r) (int i) = [0]))"
proof -
  define m where "m = Max (set sizes)"
  obtain r where r: "load_balance junk1 junk2 sizes = Inr r"
    "res_segments r = all_segs m sizes" "res_column r = col_ids 0 m sizes"
    "res_lockid r = replicate (length (res_segments r)) 0"
    unfolding m_def using assms by (rule load_balance_shape)
  have col: "of_column (res_segments r) (res_column r) (int i) = col_segs m (sizes ! i)"
    if "i < length sizes" for i
    unfolding r(2,3) using of_column_all_segs[OF that, of m 0] by simp
  have lock: "of_column (res_lockid r) (res_column r) (int i)
      = replicate (length (col_segs m (sizes ! i))) 0" if "i < length sizes" for i
  proof -
    have "length (of_column (res_lockid r) (res_column r) (int i))
        = length (of_column (res_segments r) (res_column r) (int i))"
      by (rule length_of_column) (simp add: r(4))
    then show ?thesis using col[OF that] of_column_zeros[of "length (res_segments r)"] r(4)
      by metis
  qed
  have big: "col_segs m s = [s]" if "2 * max (cdiv m 4) 4 \<le> s" for s
  proof -
    have "8 \<le> s" using that by simp
    then show ?thesis by (auto simp: col_segs_def)
  qed
  have short: "col_segs m s = [s]" if "s < m" for s
    using that by (simp add: col_segs_def)
  have locks0: "\<forall>x\<in>set (res_lockid r). x = 0" using r(4) by (metis in_set_replicate)
  have per: "\<forall>i<length sizes.
           (2 * max (cdiv m 4) 4 \<le> sizes ! i \<longrightarrow>
              of_column (res_segments r) (res_column r) (int i) = [sizes ! i]
            \<and> of_column (res_lockid r) (res_column r) (int i) = [0])
         \<and> (sizes ! i < max (cdiv m 4) 4 \<and> sizes ! i < m \<longrightarrow>
              of_column (res_segments r) (res_column r) (int i) = [sizes ! i]
            \<and> of_column (res_lockid r) (res_column r) (int i) = [0])"
  proof (intro allI impI conjI)
    fix i assume i: "i < length sizes" and b: "2 * max (cdiv m 4) 4 \<le> sizes ! i"
    show "of_column (res_segments r) (res_column r) (int i) = [sizes ! i]"
      using col[OF i] big[OF b] by simp
    show "of_column (res_lockid r) (res_column r) (int i) = [0]"
      using lock[OF i] big[OF b] by simp
  next
    fix i assume i: "i < length sizes"
      and b: "sizes ! i < max (cdiv m 4) 4 \<and> sizes ! i < m"
    then have s: "col_segs m (sizes ! i) = [sizes ! i]" using short by blast
    show "of_column (res_segments r) (res_column r) (int i) = [sizes ! i]"
      using col[OF i] s by simp
    show "of_column (res_lockid r) (res_column r) (int i) = [0]"
      using lock[OF i] s by simp
  qed
  show ?thesis
    unfolding m_def[symmetric] using r(1) locks0 per by blast
qed

text \<open>The claim as stated fails: a single column of length 8, which is \<open>2 * seg_min\<close>, is
  one segment with lock id 0.\<close>

theorem load_balance_split_counterexample:
  "load_balance zero_mem zero_mem [8] = Inr ([8], [0], [0], [0], [0])
    \<and> 2 * max (cdiv 8 4) 4 \<le> (8::int)"
  by code_simp

theorem load_balance_no_split_witness:
  "\<exists>r. load_balance zero_mem zero_mem [8, 2] = Inr r
     \<and> list_all (\<lambda>x. x = 0) (res_lockid r)
     \<and> of_column (res_segments r) (res_column r) 0 = [8]
     \<and> of_column (res_lockid r) (res_column r) 0 = [0]
     \<and> of_column (res_segments r) (res_column r) 1 = [2]
     \<and> of_column (res_lockid r) (res_column r) 1 = [0]"
proof -
  have m: "Max (set [8, 2 :: int]) = 8" "max (cdiv 8 4) 4 = (4::int)" by (simp_all add: cdiv_def)
  obtain r where r: "load_balance zero_mem zero_mem [8, 2] = Inr r"
    and l: "\<forall>x\<in>set (res_lockid r). x = 0"
    and per: "\<forall>i<length [8, 2 :: int].
           (2 * 4 \<le> [8, 2 :: int] ! i \<longrightarrow>
              of_column (res_segments r) (res_column r) (int i) = [[8, 2] ! i]
            \<and> of_column (res_lockid r) (res_column r) (int i) = [0])
         \<and> ([8, 2 :: int] ! i < 4 \<and> [8, 2 :: int] ! i < 8 \<longrightarrow>
              of_column (res_segments r) (res_column r) (int i) = [[8, 2] ! i]
            \<and> of_column (res_lockid r) (res_column r) (int i) = [0])"
    using load_balance_no_split[of "[8, 2]" zero_mem zero_mem] unfolding m by auto
  have "of_column (res_segments r) (res_column r) (int 0) = [8]
      \<and> of_column (res_lockid r) (res_column r) (int 0) = [0]"
    using per[THEN spec, of 0] by simp
  moreover have "of_column (res_segments r) (res_column r) (int 1) = [2]
      \<and> of_column (res_lockid r) (res_column r) (int 1) = [0]"
    using per[THEN spec, of 1] by simp
  ultimately show ?thesis using r l by (simp add: list_all_iff)
qed

section \<open>Properties of the look-up table builder\<close>

text \<open>On a binary layout the loop over the depth slices issues no lock at all, because
  the load balancer issues none: every lock id stays 0 and so does \<open>current_maxid\<close>.\<close>

lemma load_balance_Inr_unlocked:
  assumes nonneg: "\<forall>s\<in>set sizes. 0 \<le> s" and ret: "load_balance junk1 junk2 sizes = Inr r"
  shows "res_lockid r = replicate (length (res_segments r)) 0" "res_segments r \<noteq> []"
proof -
  have nz: "\<exists>s\<in>set sizes. s \<noteq> 0"
  proof (rule ccontr)
    assume "\<not> (\<exists>s\<in>set sizes. s \<noteq> 0)"
    then have "load_balance junk1 junk2 sizes = Inl EmptyReduction"
      by (intro load_balance_no_nonzero) simp
    then show False using ret by simp
  qed
  obtain r' where r': "load_balance junk1 junk2 sizes = Inr r'"
    "res_segments r' = all_segs (Max (set sizes)) sizes"
    "res_lockid r' = replicate (length (res_segments r')) 0"
    using nonneg nz by (rule load_balance_shape)
  have eq: "r' = r" using r'(1) ret by simp
  show "res_lockid r = replicate (length (res_segments r)) 0" using r'(3) eq by simp
  have "sizes \<noteq> []" using nz by auto
  then have "length (all_segs (Max (set sizes)) sizes) \<noteq> 0"
    using length_all_segs(1)[of sizes "Max (set sizes)"] by (cases sizes) auto
  then show "res_segments r \<noteq> []" using r'(2) eq by auto
qed

lemma layout_index_bound:
  assumes "z < Z" "r < H" "c < W"
  shows "(z * H + r) * W + c < Z * H * (W::nat)"
proof -
  have "z * H + r + 1 \<le> (z + 1) * H" using assms(2) by simp
  also have "\<dots> \<le> Z * H" using assms(1) by (intro mult_le_mono1) simp
  finally have "(z * H + r + 1) * W \<le> Z * H * W" by (rule mult_le_mono1)
  moreover have "(z * H + r) * W + c < (z * H + r + 1) * W" using assms(3) by simp
  ultimately show ?thesis by linarith
qed

lemma layout_at_binary:
  assumes "binary_layout L" "z < size0 L" "r < size1 L" "c < size2 L"
  shows "0 \<le> layout_at L z r c"
proof -
  have len: "length (cells3 L) = size0 L * size1 L * size2 L"
    using assms(1) by (simp add: binary_layout_def)
  have "(z * size1 L + r) * size2 L + c < length (cells3 L)"
    unfolding len using assms(2-4) by (rule layout_index_bound)
  then have "cells3 L ! ((z * size1 L + r) * size2 L + c) \<in> set (cells3 L)" by (rule nth_mem)
  moreover have "\<forall>x\<in>set (cells3 L). x = 0 \<or> x = 1"
    using assms(1) by (simp add: binary_layout_def list_all_iff)
  ultimately have "cells3 L ! ((z * size1 L + r) * size2 L + c) = 0
      \<or> cells3 L ! ((z * size1 L + r) * size2 L + c) = 1"
    by blast
  then show ?thesis unfolding layout_at_def by auto
qed

lemma slice_sizes_nonneg:
  assumes "binary_layout L" "z < size0 L"
  shows "\<forall>s\<in>set (slice_sizes L tr z). 0 \<le> s"
  using assms
  by (auto simp: slice_sizes_def Let_def intro!: sum_list_nonneg layout_at_binary)

lemma dxx_body_unlocked:
  assumes L: "binary_layout L" "z < size0 L"
    and body: "dxx_body junk1 junk2 L tr z st = Inr st'"
    and inv: "set (lut_lockid st) \<subseteq> {0}" "current_maxid st = 0"
             "length (lut_depth st) = length (lut_lockid st)"
  shows "set (lut_lockid st') \<subseteq> {0}" "current_maxid st' = 0"
        "length (lut_depth st') = length (lut_lockid st')"
proof -
  obtain r where r: "load_balance (junk1 z) (junk2 z) (slice_sizes L tr z) = Inr r"
    using body by (auto simp: dxx_body_def Let_def split: sum.splits)
  have nonneg: "\<forall>s\<in>set (slice_sizes L tr z). 0 \<le> s" using L by (rule slice_sizes_nonneg)
  define n where "n = length (res_segments r)"
  have lk: "res_lockid r = replicate n 0" and n: "n \<noteq> 0"
    using load_balance_Inr_unlocked[OF nonneg r] by (simp_all add: n_def)
  have zl: "map (\<lambda>l. if l > 0 then l + current_maxid st else l) (res_lockid r) = replicate n 0"
    unfolding lk by simp
  have mx: "tensor_max (replicate n 0) = Inr 0" using n by (simp add: tensor_max_def)
  have st': "st' = \<lparr>lut_segments = lut_segments st @ res_segments r,
                  lut_column = lut_column st @ res_column r,
                  lut_depth = lut_depth st @ map (\<lambda>one. int z * one) (replicate n 1),
                  lut_lockid = lut_lockid st @ replicate n 0,
                  lut_maxid = lut_maxid st @ res_maxid r,
                  lut_offsets = lut_offsets st @ map (\<lambda>off. current_offset st + off) (res_offsets r),
                  current_offset = current_offset st + slice_sum L z,
                  current_maxid = 0\<rparr>"
    using body unfolding dxx_body_def Let_def r sum.case zl n_def[symmetric] mx by simp
  show "set (lut_lockid st') \<subseteq> {0}" using inv(1) by (auto simp: st')
  show "current_maxid st' = 0" by (simp add: st')
  show "length (lut_depth st') = length (lut_lockid st')" using inv(3) by (simp add: st')
qed

lemma dxx_loop_unlocked:
  assumes "binary_layout L" "\<forall>z\<in>set zs. z < size0 L"
    and "dxx_loop junk1 junk2 L tr zs st = Inr st'"
    and "set (lut_lockid st) \<subseteq> {0}" "current_maxid st = 0"
        "length (lut_depth st) = length (lut_lockid st)"
  shows "set (lut_lockid st') \<subseteq> {0} \<and> length (lut_depth st') = length (lut_lockid st')"
  using assms(2-)
proof (induction zs arbitrary: st)
  case Nil
  then show ?case by simp
next
  case (Cons z zs)
  then obtain st1 where b: "dxx_body junk1 junk2 L tr z st = Inr st1"
    and l: "dxx_loop junk1 junk2 L tr zs st1 = Inr st'"
    by (auto split: sum.splits)
  have z: "z < size0 L" using Cons.prems(1) by simp
  note inv = dxx_body_unlocked[OF assms(1) z b Cons.prems(3,4,5)]
  show ?case using Cons.prems(1) l inv by (intro Cons.IH) simp_all
qed

subsection \<open>Layouts of zeros and ones\<close>

text \<open>The header of the stacked table is read back by position: record \<open>k\<close> holds
  the lock id of segment \<open>k\<close> at position \<open>6 * k + 4\<close>.\<close>

lemma concat_nth_rect:
  "\<forall>x\<in>set xss. length x = c \<Longrightarrow> k < length xss \<Longrightarrow> j < c \<Longrightarrow>
   concat xss ! (c * k + j) = xss ! k ! j"
proof (induction xss arbitrary: k)
  case Nil
  then show ?case by simp
next
  case (Cons x xss)
  show ?case
  proof (cases k)
    case 0
    then show ?thesis using Cons.prems by (simp add: nth_append)
  next
    case (Suc k')
    then have "concat xss ! (c * k' + j) = xss ! k' ! j" using Cons.prems by (intro Cons.IH) auto
    moreover have "c * k + j = c + (c * k' + j)" using Suc by simp
    ultimately show ?thesis using Cons.prems Suc by (simp add: nth_append)
  qed
qed

lemma stack_flat_header:
  assumes "stack_flat [a, b, c, d, e, f] = Inr h" "k < length a"
  shows "length e = length a" "length h = 6 * length a" "h ! (6 * k + 4) = e ! k"
proof -
  let ?ts = "[a, b, c, d, e, f]"
  have lens: "\<forall>t\<in>set ?ts. length t = length a" and h: "h = concat (transpose ?ts)"
    using assms(1) by (auto simp: stack_flat_def split: if_splits)
  show e: "length e = length a" using lens by simp
  have rect: "length (?ts ! i) = length a" if "i < length ?ts" for i
    using lens that nth_mem by blast
  have tr: "transpose ?ts = map (\<lambda>i. map (\<lambda>j. ?ts ! j ! i) [0..<length ?ts]) [0..<length a]"
    by (rule transpose_rectangle) (use rect in auto)
  have rows6: "\<forall>x\<in>set (transpose ?ts). length x = 6" unfolding tr by auto
  have n: "length (transpose ?ts) = length a" unfolding tr by simp
  show "length h = 6 * length a"
    unfolding h using rows6 n by (simp add: length_concat sum_list_triv cong: map_cong)
  have "concat (transpose ?ts) ! (6 * k + 4) = transpose ?ts ! k ! 4"
    using rows6 assms(2) n by (intro concat_nth_rect) simp_all
  also have "\<dots> = e ! k" unfolding tr using assms(2) by simp
  finally show "h ! (6 * k + 4) = e ! k" unfolding h .
qed

lemma stack_flat_lockid:
  assumes "stack_flat [a, b, c, d, e, f] = Inr h" "k < length c"
  shows "length e = length c" "6 * k + 4 < length h" "h ! (6 * k + 4) = e ! k"
proof -
  have "length c = length a"
    using assms(1) by (auto simp: stack_flat_def split: if_splits)
  then have k: "k < length a" using assms(2) by simp
  note f = stack_flat_header[OF assms(1) k]
  show "length e = length c" using f(1) \<open>length c = length a\<close> by simp
  show "6 * k + 4 < length h" using f(2) k by simp
  show "h ! (6 * k + 4) = e ! k" by (rule f(3))
qed

lemma make_dxx_lut_parts:
  assumes "make_dxx_lut junk1 junk2 L blk step tr = Inr (lut, n, w)"
  shows "\<exists>st a b h incs mx.
      dxx_loop junk1 junk2 L tr [0..<size0 L]
        \<lparr>lut_segments = [], lut_column = [], lut_depth = [], lut_lockid = [],
         lut_maxid = [], lut_offsets = [], current_offset = 0, current_maxid = 0\<rparr> = Inr st
    \<and> stack_flat [a, b, lut_column st, lut_depth st, lut_lockid st, lut_maxid st] = Inr h
    \<and> lut = map to_int32 h @ incs
    \<and> tensor_max (lut_lockid st) = Inr mx \<and> n = max 1 mx \<and> w = length (lut_column st)"
  using assms unfolding make_dxx_lut_def Let_def
  apply (cases tr)
   apply (simp_all split: sum.splits if_splits)
   apply (elim conjE exE; intro exI conjI; (assumption | rule refl | (rule sym, assumption) | simp)?)+
  done

lemma make_dxx_lut_binary_unlocked:
  assumes run: "make_dxx_lut junk1 junk2 L blk step tr = Inr (lut, n, w)"
    and bin: "binary_layout L"
  shows "n = 1 \<and> (\<forall>k<w. lockid_of lut k = 0)"
proof -
  from make_dxx_lut_parts[OF run] obtain st a b h incs mx where
    loop: "dxx_loop junk1 junk2 L tr [0..<size0 L]
        \<lparr>lut_segments = [], lut_column = [], lut_depth = [], lut_lockid = [],
         lut_maxid = [], lut_offsets = [], current_offset = 0, current_maxid = 0\<rparr> = Inr st"
    and h: "stack_flat [a, b, lut_column st, lut_depth st, lut_lockid st, lut_maxid st] = Inr h"
    and lut: "lut = map to_int32 h @ incs"
    and mx: "tensor_max (lut_lockid st) = Inr mx" and n: "n = max 1 mx"
    and w: "w = length (lut_column st)"
    by blast
  have inv: "set (lut_lockid st) \<subseteq> {0}"
    using dxx_loop_unlocked[OF bin _ loop] by simp
  from mx have ne: "lut_lockid st \<noteq> []" and mxv: "mx = Max (set (lut_lockid st))"
    by (auto simp: tensor_max_def split: if_splits)
  from ne inv have "set (lut_lockid st) = {0}" by (cases "lut_lockid st") auto
  with mxv have "mx = 0" by simp
  with n have n1: "n = 1" by simp
  have "lockid_of lut k = 0" if k: "k < w" for k
  proof -
    from k w have kc: "k < length (lut_column st)" by simp
    note sf = stack_flat_lockid[OF h kc]
    from sf(1) kc have "lut_lockid st ! k \<in> set (lut_lockid st)" by simp
    with inv have z: "lut_lockid st ! k = 0" by auto
    have "lut ! (6 * k + 4) = to_int32 (h ! (6 * k + 4))"
      using sf(2) by (simp add: lut nth_append)
    also have "\<dots> = 0" using sf(3) z by (simp add: to_int32_def)
    finally show ?thesis by (simp add: lockid_of_def)
  qed
  with n1 show ?thesis by simp
qed

text \<open>On the layout of two depth slices the builder returns seven header records, all
  with lock id 0, and one lock; with no depth slice, \<^verbatim>\<open>lockid.max()\<close> raises; with a
  block smaller than the step, column 0 of the increments does not exist.\<close>

lemma two_slices_run:
  "make_dxx_lut zero_mems zero_mems two_slices 16 16 True =
     Inr ([42, 16, 0, 0, 0, 0,  44, 0, 0, 0, 0, 0,  44, 16, 1, 0, 0, 0,  46, 0, 1, 0, 0, 0,
           46, 32, 0, 1, 0, 0,  50, 0, 0, 1, 0, 0,  50, 16, 1, 1, 0, 0,
           0, 0, 16, 1, 0, 2, 16, 256, 0, 4, 0, 0], 1, 7)"
  by code_simp

lemma make_dxx_lut_no_slice:
  "make_dxx_lut zero_mems zero_mems \<lparr>size0 = 0, size1 = 2, size2 = 2, cells3 = []\<rparr> 16 16 True
     = Inl EmptyReduction"
  by code_simp

lemma make_dxx_lut_small_block:
  "make_dxx_lut zero_mems zero_mems two_slices 8 16 True = Inl IndexError"
  by code_simp

subsection \<open>Lock ids across depth slices\<close>



section \<open>Properties of the lock scratch buffer\<close>

lemma get_locks_cases:
  assumes "get_locks sz dev st = Inr (b, st')"
  shows "(locks st dev = Some b \<and> sz \<le> int (length (cells b)) \<and> st' = st)
       \<or> (0 \<le> sz \<and> b = \<lparr>buf_id = fresh st, cells = replicate (nat sz) 0\<rparr>
           \<and> st' = \<lparr>locks = (locks st)(dev \<mapsto> b), fresh = fresh st + 1\<rparr>
           \<and> (\<forall>b0. locks st dev = Some b0 \<longrightarrow> int (length (cells b0)) < sz))"
  using assms
  by (auto simp: get_locks_def torch_zeros_def Let_def split: option.splits if_splits)

lemma get_locks_stored:
  assumes "get_locks sz dev st = Inr (b, st')"
  shows "locks st' dev = Some b" "sz \<le> int (length (cells b))"
  using get_locks_cases[OF assms] by auto

lemma get_locks_grows:
  assumes "get_locks sz dev st = Inr (b, st')"
  shows "buffer_size st d \<le> buffer_size st' d"
proof (cases "d = dev")
  case True
  show ?thesis
    using get_locks_cases[OF assms] unfolding True
    by (cases "locks st dev") (auto simp: buffer_size_def)
next
  case False
  then show ?thesis
    using get_locks_cases[OF assms] by (auto simp: buffer_size_def)
qed

lemma get_locks_seq_grows:
  "get_locks_seq cs st = Inr st' \<Longrightarrow> buffer_size st d \<le> buffer_size st' d"
proof (induction cs arbitrary: st)
  case Nil
  then show ?case by simp
next
  case (Cons c cs)
  then obtain b st1 where s: "get_locks (fst c) (snd c) st = Inr (b, st1)"
    and r: "get_locks_seq cs st1 = Inr st'"
    by (auto split: sum.splits)
  have "buffer_size st d \<le> buffer_size st1 d" using s by (rule get_locks_grows)
  also have "\<dots> \<le> buffer_size st' d" using r by (rule Cons.IH)
  finally show ?case .
qed

lemma get_locks_reuse:
  "locks st dev = Some b0 \<Longrightarrow> sz \<le> int (length (cells b0)) \<Longrightarrow>
   get_locks sz dev st = Inr (b0, st)"
  by (simp add: get_locks_def Let_def)

lemma get_locks_returns:
  "0 \<le> sz \<Longrightarrow> \<exists>b st'. get_locks sz dev st = Inr (b, st')"
  by (auto simp: get_locks_def torch_zeros_def Let_def split: option.splits)

text \<open>
  Claim C9. After a call \<^verbatim>\<open>get_locks(size, dev)\<close> that returns, the buffer stored for
  \<open>dev\<close> is the one returned and has at least \<open>size\<close> elements; no call and no
  sequence of calls makes the buffer of any device smaller; a request no larger than the
  buffer stored returns that buffer object and leaves the state unchanged; and a call with
  a non-negative size returns.
\<close>

theorem get_locks_monotone:
  "(get_locks sz dev st = Inr (b, st') \<longrightarrow>
       locks st' dev = Some b \<and> sz \<le> int (buffer_size st' dev)
     \<and> buffer_size st d \<le> buffer_size st' d)
   \<and> (get_locks_seq cs st = Inr st'' \<longrightarrow> buffer_size st d \<le> buffer_size st'' d)
   \<and> (locks st dev = Some b0 \<and> sz \<le> int (length (cells b0)) \<longrightarrow>
         get_locks sz dev st = Inr (b0, st))
   \<and> (0 \<le> sz \<longrightarrow> (\<exists>b1 st1. get_locks sz dev st = Inr (b1, st1)))"
proof (intro conjI impI)
  assume g: "get_locks sz dev st = Inr (b, st')"
  show "locks st' dev = Some b" using g by (rule get_locks_stored)
  then show "sz \<le> int (buffer_size st' dev)"
    using get_locks_stored(2)[OF g] by (simp add: buffer_size_def)
  show "buffer_size st d \<le> buffer_size st' d" using g by (rule get_locks_grows)
next
  assume "get_locks_seq cs st = Inr st''"
  then show "buffer_size st d \<le> buffer_size st'' d" by (rule get_locks_seq_grows)
next
  assume "locks st dev = Some b0 \<and> sz \<le> int (length (cells b0))"
  then show "get_locks sz dev st = Inr (b0, st)" by (simp add: get_locks_reuse)
next
  assume "0 \<le> sz"
  then show "\<exists>b1 st1. get_locks sz dev st = Inr (b1, st1)" by (rule get_locks_returns)
qed

theorem get_locks_monotone_witness:
  "\<exists>b st'. get_locks 3 ''cuda:0'' no_locks = Inr (b, st')
      \<and> locks st' ''cuda:0'' = Some b \<and> 3 \<le> buffer_size st' ''cuda:0''
      \<and> get_locks 2 ''cuda:0'' st' = Inr (b, st')
      \<and> (\<exists>st''. get_locks_seq [(2, ''cuda:0''), (1, ''cuda:1'')] st' = Inr st''
              \<and> 3 \<le> buffer_size st'' ''cuda:0'')"
proof -
  define st1 where "st1 = \<lparr>locks = [''cuda:0'' \<mapsto> \<lparr>buf_id = 0, cells = [0, 0, 0]\<rparr>], fresh = 1\<rparr>"
  define b1 where "b1 = \<lparr>buf_id = 0, cells = [0, 0, 0 :: int]\<rparr>"
  have g: "get_locks 3 ''cuda:0'' no_locks = Inr (b1, st1)"
    by (simp add: get_locks_def torch_zeros_def no_locks_def st1_def b1_def numeral_3_eq_3)
  have s: "get_locks_seq [(2, ''cuda:0''), (1, ''cuda:1'')] st1
      = Inr (st1\<lparr>locks := (locks st1)(''cuda:1'' \<mapsto> \<lparr>buf_id = 1, cells = [0]\<rparr>), fresh := 2\<rparr>)"
    by (simp add: get_locks_def torch_zeros_def st1_def)
  note t1 = get_locks_monotone[of 3 "''cuda:0''" no_locks b1 st1 "''cuda:0''"
      "[(2, ''cuda:0''), (1, ''cuda:1'')]"]
  note t2 = get_locks_monotone[of 2 "''cuda:0''" st1 b1 st1 "''cuda:0''"
      "[(2, ''cuda:0''), (1, ''cuda:1'')]" _ b1]
  have a: "locks st1 ''cuda:0'' = Some b1" "3 \<le> buffer_size st1 ''cuda:0''"
    using t1 g by auto
  have b: "get_locks 2 ''cuda:0'' st1 = Inr (b1, st1)"
    using t2 a(1) by (simp add: b1_def)
  have c: "3 \<le> buffer_size (st1\<lparr>locks := (locks st1)(''cuda:1'' \<mapsto> \<lparr>buf_id = 1, cells = [0]\<rparr>),
        fresh := 2\<rparr>) ''cuda:0''"
    using t2 s a(2) by force
  show ?thesis using g a b c s by auto
qed

section \<open>Properties of the gradient dispatch\<close>

lemma py_index_nat:
  "k < length xs \<Longrightarrow> py_index xs (int k) = Inr (xs ! k)"
  by (simp add: py_index_def index_norm_def)

lemma py_index_last: "xs \<noteq> [] \<Longrightarrow> py_index xs (- 1) = Inr (xs ! (length xs - 1))"
  by (cases xs) (simp_all add: py_index_def index_norm_def nat_diff_distrib)

lemma py_index_last2:
  "2 \<le> length xs \<Longrightarrow> py_index xs (- 2) = Inr (xs ! (length xs - 2))"
  by (simp add: py_index_def index_norm_def nat_diff_distrib)

lemma mode_chars_3:
  "length m = 3 \<Longrightarrow> i < 3 \<Longrightarrow> j < 3 \<Longrightarrow> k < 3 \<Longrightarrow>
   mode_chars m (int i) (int j) (int k) = Inr [m ! i, m ! j, m ! k]"
  by (simp add: mode_chars_def py_index_nat)

text \<open>
  Claim C6. For each mode \<open>m\<close> of \<open>sdd\<close>, \<open>dsd\<close>, \<open>dds\<close> and all transpose
  flags, \<^verbatim>\<open>backward\<close> computes the gradient of the left operand by calling the
  function of mode \<open>m[1] + m[0] + m[2]\<close> on \<open>(dc, b)\<close> with flags
  \<open>(False, not trans_b)\<close> and output flag \<open>trans_a\<close>, and the gradient of the right
  operand by calling the function of mode \<open>m[2] + m[1] + m[0]\<close> on \<open>(a, dc)\<close> with
  flags \<open>(not trans_a, False)\<close> and output flag \<open>trans_b\<close>.
\<close>

theorem backward_dispatch:
  assumes "m \<in> {''sdd'', ''dsd'', ''dds''}"
  shows "\<exists>f_da f_db.
      mode_chars m 1 0 2 = Inr [m ! 1, m ! 0, m ! 2] \<and> fn [m ! 1, m ! 0, m ! 2] = Inr f_da
    \<and> mode_chars m 2 1 0 = Inr [m ! 2, m ! 1, m ! 0] \<and> fn [m ! 2, m ! 1, m ! 0] = Inr f_db
    \<and> backward \<lparr>ctx_mode = m, ctx_trans_a = ta, ctx_trans_b = tb,
                 needs_input_grad = (True, True)\<rparr>
       = Inr (Some \<lparr>called = f_da, arg_a = Grad_dc, arg_b = Saved_b,
                    arg_trans_a = False, arg_trans_b = (\<not> tb), arg_trans_c = ta,
                    arg_lut = Da_lut\<rparr>,
              Some \<lparr>called = f_db, arg_a = Saved_a, arg_b = Grad_dc,
                    arg_trans_a = (\<not> ta), arg_trans_b = False, arg_trans_c = tb,
                    arg_lut = Db_lut\<rparr>)
    \<and> (f_da, f_db) = (if m = ''sdd'' then (Dsd_matmul, Dds_matmul)
                       else if m = ''dsd'' then (Sdd_matmul, Dsd_matmul)
                       else (Dds_matmul, Sdd_matmul))"
proof -
  have len: "length m = 3" using assms by auto
  have c1: "mode_chars m 1 0 2 = Inr [m ! 1, m ! 0, m ! 2]"
    using mode_chars_3[OF len, of 1 0 2] by simp
  have c2: "mode_chars m 2 1 0 = Inr [m ! 2, m ! 1, m ! 0]"
    using mode_chars_3[OF len, of 2 1 0] by simp
  consider "m = ''sdd''" | "m = ''dsd''" | "m = ''dds''" using assms by auto
  then show ?thesis
  proof cases
    case 1
    have f: "fn [m ! 1, m ! 0, m ! 2] = Inr Dsd_matmul" "fn [m ! 2, m ! 1, m ! 0] = Inr Dds_matmul"
      unfolding 1 by (simp_all add: fn_def)
    show ?thesis using c1 c2 f 1 by (simp add: backward_def)
  next
    case 2
    have f: "fn [m ! 1, m ! 0, m ! 2] = Inr Sdd_matmul" "fn [m ! 2, m ! 1, m ! 0] = Inr Dsd_matmul"
      unfolding 2 by (simp_all add: fn_def)
    show ?thesis using c1 c2 f 2 by (simp add: backward_def)
  next
    case 3
    have f: "fn [m ! 1, m ! 0, m ! 2] = Inr Dds_matmul" "fn [m ! 2, m ! 1, m ! 0] = Inr Sdd_matmul"
      unfolding 3 by (simp_all add: fn_def)
    show ?thesis using c1 c2 f 3 by (simp add: backward_def)
  qed
qed

theorem backward_dispatch_witness:
  "backward \<lparr>ctx_mode = ''dsd'', ctx_trans_a = True, ctx_trans_b = False,
             needs_input_grad = (True, True)\<rparr>
   = Inr (Some \<lparr>called = Sdd_matmul, arg_a = Grad_dc, arg_b = Saved_b,
                arg_trans_a = False, arg_trans_b = True, arg_trans_c = True,
                arg_lut = Da_lut\<rparr>,
          Some \<lparr>called = Dsd_matmul, arg_a = Saved_a, arg_b = Grad_dc,
                arg_trans_a = False, arg_trans_b = False, arg_trans_c = False,
                arg_lut = Db_lut\<rparr>)"
  using backward_dispatch[of "''dsd''" True False] by auto

section \<open>Properties of construction and validation\<close>

lemma py_index_shape:
  assumes "length xs = 2 \<or> length xs = 3" "i = - 1 \<or> i = - 2"
  shows "\<exists>n. py_index xs i = Inr n"
  using assms by (auto simp: py_index_def index_norm_def)

text \<open>
  Claim C8. \<^verbatim>\<open>matmul.__init__\<close> fails if and only if the mode is not one of
  \<open>sdd\<close>, \<open>dsd\<close>, \<open>dds\<close> or the layout has other than 2 or 3 dimensions: with
  NotImplementedError for the mode, with AssertionError for the layout. Otherwise it
  returns an object with that mode and block and a layout of three dimensions.
\<close>

theorem matmul_init_fails_iff:
  "((\<exists>e. matmul_init L blk md ta tb = Inl e)
      \<longleftrightarrow> (md \<notin> {''sdd'', ''dsd'', ''dds''} \<or> length (shape L) \<notin> {2, 3}))
   \<and> (md \<notin> {''sdd'', ''dsd'', ''dds''} \<longrightarrow> matmul_init L blk md ta tb = Inl NotImplementedError)
   \<and> (md \<in> {''sdd'', ''dsd'', ''dds''} \<and> length (shape L) \<notin> {2, 3} \<longrightarrow>
         matmul_init L blk md ta tb = Inl AssertionError)
   \<and> (md \<in> {''sdd'', ''dsd'', ''dds''} \<and> length (shape L) \<in> {2, 3} \<longrightarrow>
         (\<exists>self. matmul_init L blk md ta tb = Inr self \<and> mode self = md \<and> block self = blk
                \<and> length (shape (self_layout self)) = 3))"
proof -
  have bad_mode: "matmul_init L blk md ta tb = Inl NotImplementedError"
    if "md \<notin> {''sdd'', ''dsd'', ''dds''}"
    using that by (simp add: matmul_init_def)
  have bad_dim: "matmul_init L blk md ta tb = Inl AssertionError"
    if "md \<in> {''sdd'', ''dsd'', ''dds''}" "length (shape L) \<notin> {2, 3}"
    using that by (auto simp: matmul_init_def)
  have good: "\<exists>self. matmul_init L blk md ta tb = Inr self \<and> mode self = md \<and> block self = blk
                \<and> length (shape (self_layout self)) = 3"
    if md: "md \<in> {''sdd'', ''dsd'', ''dds''}" and dim: "length (shape L) \<in> {2, 3}"
  proof -
    have d: "length (shape L) = 2 \<or> length (shape L) = 3" using dim by simp
    have ix: "\<exists>n. py_index (shape L) i = Inr n" if "i = - 1 \<or> i = - 2" for i
      using d that by (rule py_index_shape)
    obtain n1 where n1: "py_index (shape L) (- 1) = Inr n1" using ix[of "- 1"] by auto
    obtain n2 where n2: "py_index (shape L) (- 2) = Inr n2" using ix[of "- 2"] by auto
    show ?thesis
      using md d n1 n2 by (auto simp: matmul_init_def Let_def)
  qed
  show ?thesis using bad_mode bad_dim good by (metis sum.distinct(1))
qed

theorem matmul_init_fails_iff_witness:
  "matmul_init diag_layout 16 ''ssd'' False False = Inl NotImplementedError
   \<and> matmul_init vector_layout 16 ''dsd'' False False = Inl AssertionError
   \<and> (\<exists>self. matmul_init diag_layout 16 ''dsd'' False False = Inr self
          \<and> mode self = ''dsd'' \<and> block self = 16
          \<and> length (shape (self_layout self)) = 3)"
  using matmul_init_fails_iff[of diag_layout 16 "''ssd''" False False]
        matmul_init_fails_iff[of vector_layout 16 "''dsd''" False False]
        matmul_init_fails_iff[of diag_layout 16 "''dsd''" False False]
  by (simp add: diag_layout_def vector_layout_def)

lemma matmul_init_attrs:
  assumes init: "matmul_init L blk md ta tb = Inr self" and md: "md = ''dsd'' \<or> md = ''dds''"
  defines "dim \<equiv> (if md = ''dsd'' then (if tb then - 1 else - 2) else (if ta then - 2 else - 1 :: int))"
    and "lay_dim \<equiv> (if md = ''dsd'' then (if ta then - 2 else - 1) else (if tb then - 1 else - 2 :: int))"
  shows "mode self = md" "dense_inner_dim self = Some dim"
    "\<exists>n. py_index (shape L) lay_dim = Inr n \<and> dense_inner_size self = Some (int n * blk)"
    "sparse_shape self = Some [sum_list (entries L), blk, blk]"
proof -
  have d: "length (shape L) = 2 \<or> length (shape L) = 3"
    using init md by (auto simp: matmul_init_def Let_def split: if_splits)
  have "lay_dim = - 1 \<or> lay_dim = - 2" by (simp add: lay_dim_def)
  then obtain n where n: "py_index (shape L) lay_dim = Inr n"
    using py_index_shape[OF d] by blast
  have self: "self = \<lparr>block = blk, mode = md, trans_a = ta, trans_b = tb,
                            dense_inner_dim = Some dim,
                            dense_inner_size = Some (int n * blk),
                            sparse_shape = Some [sum_list (entries L), blk, blk],
                            self_layout = (if length (shape L) = 2 then L\<lparr>shape := 1 # shape L\<rparr> else L),
                            spdims = shape (if length (shape L) = 2 then L\<lparr>shape := 1 # shape L\<rparr> else L)\<rparr>"
    using init md d n
    by (auto simp: matmul_init_def Let_def dim_def lay_dim_def split: if_splits)
  show "mode self = md" "dense_inner_dim self = Some dim"
    "sparse_shape self = Some [sum_list (entries L), blk, blk]"
    by (simp_all add: self)
  show "\<exists>n. py_index (shape L) lay_dim = Inr n \<and> dense_inner_size self = Some (int n * blk)"
    using n by (auto simp: self)
qed

lemma add_extra_dims_cases:
  "(length (shape x) \<le> 4 \<longrightarrow> (\<exists>x'. add_extra_dims x = Inr x'))
   \<and> (\<forall>e. add_extra_dims x = Inl e \<longrightarrow> e = ValueError TooManyDims)"
  by (auto simp: add_extra_dims_def Let_def)

lemma shape_half [simp]: "shape (half x) = shape x"
  by (simp add: half_def)

lemma validate_dense_output:
  assumes md: "mode self = md" "md = ''dsd'' \<or> md = ''dds''"
    and attrs: "dense_inner_dim self = Some dim" "dense_inner_size self = Some expected_size"
      "sparse_shape self = Some expected" "length expected = 3"
    and ok: "device a = device b" "is_cuda a" "autocast \<or> dtype a = dtype b"
    and k: "py_index (shape (if md = ''dds'' then a else b)) dim = Inr k"
  shows "int k \<noteq> expected_size \<Longrightarrow>
      validate_inputs self autocast a b =
        Inl (ValueError (DenseInnerMismatch (if md = ''dds'' then ''A'' else ''B'') expected_size
               (dim mod int (length (shape (if md = ''dds'' then a else b)))) k))"
    and "int k = expected_size \<Longrightarrow>
      map int (py_slice_from (shape (if md = ''dds'' then b else a)) (- 3)) \<noteq> expected \<Longrightarrow>
      validate_inputs self autocast a b =
        Inl (ValueError (SparseShapeMismatch expected (if md = ''dds'' then ''B'' else ''A'')
               (shape (if md = ''dds'' then b else a))))"
    and "int k = expected_size \<Longrightarrow>
      map int (py_slice_from (shape (if md = ''dds'' then b else a)) (- 3)) = expected \<Longrightarrow>
      (\<forall>e. validate_inputs self autocast a b = Inl e \<longrightarrow> e = ValueError TooManyDims)
      \<and> (length (shape a) \<le> 4 \<and> length (shape b) \<le> 4 \<longrightarrow>
            (\<exists>a' b'. validate_inputs self autocast a b = Inr (a', b')))"
proof -
  have sdd: "md \<noteq> ''sdd''" using md(2) by auto
  have k': "py_index (shape (if md = ''dds'' then (if autocast then half a else a)
                else (if autocast then half b else b))) dim = Inr k"
    using k by (simp split: if_splits)
  have sp: "shape (if md = ''dds'' then (if autocast then half b else b)
                else (if autocast then half a else a)) = shape (if md = ''dds'' then b else a)"
    by simp
  have dn: "shape (if md = ''dds'' then (if autocast then half a else a)
                else (if autocast then half b else b)) = shape (if md = ''dds'' then a else b)"
    by simp
  have pre: "(device a \<noteq> device b) = False" "(\<not> is_cuda a) = False"
    "(\<not> autocast \<and> dtype a \<noteq> dtype b) = False"
    using ok by auto
  {
    assume "int k \<noteq> expected_size"
    then show "validate_inputs self autocast a b =
        Inl (ValueError (DenseInnerMismatch (if md = ''dds'' then ''A'' else ''B'') expected_size
               (dim mod int (length (shape (if md = ''dds'' then a else b)))) k))"
      unfolding validate_inputs_def Let_def md(1) pre if_False using sdd attrs k' dn
      by (simp del: shape_half)
  }
  {
    assume e: "int k = expected_size"
      and ne: "map int (py_slice_from (shape (if md = ''dds'' then b else a)) (- 3)) \<noteq> expected"
    show "validate_inputs self autocast a b =
        Inl (ValueError (SparseShapeMismatch expected (if md = ''dds'' then ''B'' else ''A'')
               (shape (if md = ''dds'' then b else a))))"
      unfolding validate_inputs_def Let_def md(1) pre if_False using sdd attrs k' e ne sp
      by (simp del: shape_half)
  }
  {
    assume e: "int k = expected_size"
      and eq: "map int (py_slice_from (shape (if md = ''dds'' then b else a)) (- 3)) = expected"
    have v: "validate_inputs self autocast a b =
       (case add_extra_dims (if autocast then half a else a) of
                   Inl e \<Rightarrow> Inl e
                 | Inr a' \<Rightarrow>
                     (case add_extra_dims (if autocast then half b else b) of
                        Inl e \<Rightarrow> Inl e
                      | Inr b' \<Rightarrow> Inr (a', b')))"
      unfolding validate_inputs_def Let_def md(1) pre if_False using sdd attrs k' e eq sp
      by (simp del: shape_half)
    define a1 where "a1 = (if autocast then half a else a)"
    define b1 where "b1 = (if autocast then half b else b)"
    have sh: "shape a1 = shape a" "shape b1 = shape b" by (simp_all add: a1_def b1_def)
    have v1: "validate_inputs self autocast a b =
       (case add_extra_dims a1 of
          Inl e \<Rightarrow> Inl e
        | Inr a' \<Rightarrow> (case add_extra_dims b1 of Inl e \<Rightarrow> Inl e | Inr b' \<Rightarrow> Inr (a', b')))"
      unfolding v a1_def b1_def ..
    show "(\<forall>e. validate_inputs self autocast a b = Inl e \<longrightarrow> e = ValueError TooManyDims)
      \<and> (length (shape a) \<le> 4 \<and> length (shape b) \<le> 4 \<longrightarrow>
            (\<exists>a' b'. validate_inputs self autocast a b = Inr (a', b')))"
      unfolding v1
      using add_extra_dims_cases[of a1] add_extra_dims_cases[of b1] unfolding sh
      by (auto split: sum.splits)
  }
qed

lemma matmul_init_mode:
  assumes "matmul_init L blk md ta tb = Inr self"
  shows "mode self = md" "md = ''sdd'' \<or> md = ''dsd'' \<or> md = ''dds''"
  using assms
  by (auto simp: matmul_init_def Let_def split: if_splits sum.splits)

lemma validate_sparse_output:
  assumes md: "mode self = ''sdd''"
    and ok: "device a = device b" "is_cuda a" "autocast \<or> dtype a = dtype b"
  shows "\<forall>e. validate_inputs self autocast a b = Inl e \<longrightarrow> e = ValueError TooManyDims"
proof -
  have pre: "(device a \<noteq> device b) = False" "(\<not> is_cuda a) = False"
    "(\<not> autocast \<and> dtype a \<noteq> dtype b) = False"
    using ok by auto
  define a1 where "a1 = (if autocast then half a else a)"
  define b1 where "b1 = (if autocast then half b else b)"
  have v1: "validate_inputs self autocast a b =
       (case add_extra_dims a1 of
          Inl e \<Rightarrow> Inl e
        | Inr a' \<Rightarrow> (case add_extra_dims b1 of Inl e \<Rightarrow> Inl e | Inr b' \<Rightarrow> Inr (a', b')))"
    unfolding validate_inputs_def Let_def md pre if_False a1_def b1_def by simp
  show ?thesis
    unfolding v1 using add_extra_dims_cases[of a1] add_extra_dims_cases[of b1]
    by (auto split: sum.splits)
qed

lemma sdd_matmul_cases:
  assumes "py_index sa (if tra then - 2 else - 1) = Inr Ka"
    "py_index sb (if trb then - 1 else - 2) = Inr Kb"
  shows "Ka \<noteq> Kb \<Longrightarrow> sdd_matmul sa sb tra trb False = Inl (ValueError (InnerDimMismatch Ka Kb))"
    and "Ka = Kb \<Longrightarrow> Ka mod 16 \<noteq> 0 \<Longrightarrow>
           sdd_matmul sa sb tra trb False = Inl (ValueError ReductionNotMultipleOf16)"
    and "Ka = Kb \<Longrightarrow> Ka mod 16 = 0 \<Longrightarrow> sdd_matmul sa sb tra trb False = Inr Ka"
  using assms by (simp_all add: sdd_matmul_def Let_def)

text \<open>
  Claim C7. Let the object be constructed by \<^verbatim>\<open>__init__\<close> and let the operands pass
  the device and dtype checks. In a dense-output mode, when the inner dimension of the
  dense operand differs from the layout-derived size times \<open>block\<close>,
  \<^verbatim>\<open>_validate_inputs\<close> fails with the ValueError that names the operand, the expected
  size, the dimension and the size found; when it agrees and the trailing shape of the
  sparse operand differs from \<open>(layout.sum(), block, block)\<close>, it fails with the
  ValueError that names the expected and the actual shape; when both agree it raises no
  shape mismatch (it returns, unless an operand has more than 4 dimensions). In the
  sparse-output mode validation checks no shape, and \<^verbatim>\<open>sdd_matmul\<close> fails when the
  inner dimensions differ or the reduction size is not a multiple of 16, and proceeds
  otherwise.
\<close>

theorem validate_inputs_shape_errors:
  assumes init: "matmul_init L blk md ta tb = Inr self"
    and ok: "device a = device b" "is_cuda a" "autocast \<or> dtype a = dtype b"
  defines "dense \<equiv> (if md = ''dds'' then a else b)"
    and "sparse \<equiv> (if md = ''dds'' then b else a)"
    and "dim \<equiv> (if md = ''dsd'' then (if tb then - 1 else - 2) else (if ta then - 2 else - 1 :: int))"
    and "lay_dim \<equiv> (if md = ''dsd'' then (if ta then - 2 else - 1) else (if tb then - 1 else - 2 :: int))"
    and "expected \<equiv> [sum_list (entries L), blk, blk]"
  shows "(md \<noteq> ''sdd'' \<longrightarrow>
          (\<exists>n. py_index (shape L) lay_dim = Inr n \<and>
            (\<forall>k. py_index (shape dense) dim = Inr k \<longrightarrow>
               (int k \<noteq> int n * blk \<longrightarrow>
                  validate_inputs self autocast a b =
                    Inl (ValueError (DenseInnerMismatch (if md = ''dds'' then ''A'' else ''B'')
                           (int n * blk) (dim mod int (length (shape dense))) k)))
             \<and> (int k = int n * blk
                  \<and> map int (py_slice_from (shape sparse) (- 3)) \<noteq> expected \<longrightarrow>
                  validate_inputs self autocast a b =
                    Inl (ValueError (SparseShapeMismatch expected
                           (if md = ''dds'' then ''B'' else ''A'') (shape sparse))))
             \<and> (int k = int n * blk
                  \<and> map int (py_slice_from (shape sparse) (- 3)) = expected \<longrightarrow>
                  (\<forall>e. validate_inputs self autocast a b = Inl e \<longrightarrow>
                         e = ValueError TooManyDims)
                \<and> (length (shape a) \<le> 4 \<and> length (shape b) \<le> 4 \<longrightarrow>
                      (\<exists>a' b'. validate_inputs self autocast a b = Inr (a', b')))))))
     \<and> (md = ''sdd'' \<longrightarrow>
          (\<forall>e. validate_inputs self autocast a b = Inl e \<longrightarrow> e = ValueError TooManyDims))
     \<and> (\<forall>Ka Kb. py_index sa (if tra then - 2 else - 1) = Inr Ka
                \<and> py_index sb (if trb then - 1 else - 2) = Inr Kb \<longrightarrow>
           (Ka \<noteq> Kb \<longrightarrow>
              sdd_matmul sa sb tra trb False = Inl (ValueError (InnerDimMismatch Ka Kb)))
         \<and> (Ka = Kb \<and> Ka mod 16 \<noteq> 0 \<longrightarrow>
              sdd_matmul sa sb tra trb False = Inl (ValueError ReductionNotMultipleOf16))
         \<and> (Ka = Kb \<and> Ka mod 16 = 0 \<longrightarrow> sdd_matmul sa sb tra trb False = Inr Ka))"
proof (intro conjI impI)
  assume ns: "md \<noteq> ''sdd''"
  then have md: "md = ''dsd'' \<or> md = ''dds''" using matmul_init_mode(2)[OF init] by auto
  note at = matmul_init_attrs[OF init md]
  obtain n where n: "py_index (shape L) lay_dim = Inr n"
    "dense_inner_size self = Some (int n * blk)"
    using at(3) unfolding lay_dim_def by blast
  have dd: "dense_inner_dim self = Some dim" using at(2) by (simp add: dim_def)
  have ss: "sparse_shape self = Some expected" using at(4) by (simp add: expected_def)
  have len: "length expected = 3" by (simp add: expected_def)
  note v = validate_dense_output[OF at(1) md dd n(2) ss len ok]
  have "\<forall>k. py_index (shape dense) dim = Inr k \<longrightarrow>
               (int k \<noteq> int n * blk \<longrightarrow>
                  validate_inputs self autocast a b =
                    Inl (ValueError (DenseInnerMismatch (if md = ''dds'' then ''A'' else ''B'')
                           (int n * blk) (dim mod int (length (shape dense))) k)))
             \<and> (int k = int n * blk
                  \<and> map int (py_slice_from (shape sparse) (- 3)) \<noteq> expected \<longrightarrow>
                  validate_inputs self autocast a b =
                    Inl (ValueError (SparseShapeMismatch expected
                           (if md = ''dds'' then ''B'' else ''A'') (shape sparse))))
             \<and> (int k = int n * blk
                  \<and> map int (py_slice_from (shape sparse) (- 3)) = expected \<longrightarrow>
                  (\<forall>e. validate_inputs self autocast a b = Inl e \<longrightarrow>
                         e = ValueError TooManyDims)
                \<and> (length (shape a) \<le> 4 \<and> length (shape b) \<le> 4 \<longrightarrow>
                      (\<exists>a' b'. validate_inputs self autocast a b = Inr (a', b'))))"
  proof (intro allI impI)
    fix k assume k: "py_index (shape dense) dim = Inr k"
    then have k': "py_index (shape (if md = ''dds'' then a else b)) dim = Inr k"
      by (simp add: dense_def)
    show "(int k \<noteq> int n * blk \<longrightarrow>
                  validate_inputs self autocast a b =
                    Inl (ValueError (DenseInnerMismatch (if md = ''dds'' then ''A'' else ''B'')
                           (int n * blk) (dim mod int (length (shape dense))) k)))
             \<and> (int k = int n * blk
                  \<and> map int (py_slice_from (shape sparse) (- 3)) \<noteq> expected \<longrightarrow>
                  validate_inputs self autocast a b =
                    Inl (ValueError (SparseShapeMismatch expected
                           (if md = ''dds'' then ''B'' else ''A'') (shape sparse))))
             \<and> (int k = int n * blk
                  \<and> map int (py_slice_from (shape sparse) (- 3)) = expected \<longrightarrow>
                  (\<forall>e. validate_inputs self autocast a b = Inl e \<longrightarrow>
                         e = ValueError TooManyDims)
                \<and> (length (shape a) \<le> 4 \<and> length (shape b) \<le> 4 \<longrightarrow>
                      (\<exists>a' b'. validate_inputs self autocast a b = Inr (a', b'))))"
      unfolding dense_def sparse_def using v[OF k'] by blast
  qed
  then show "\<exists>n. py_index (shape L) lay_dim = Inr n \<and>
            (\<forall>k. py_index (shape dense) dim = Inr k \<longrightarrow>
               (int k \<noteq> int n * blk \<longrightarrow>
                  validate_inputs self autocast a b =
                    Inl (ValueError (DenseInnerMismatch (if md = ''dds'' then ''A'' else ''B'')
                           (int n * blk) (dim mod int (length (shape dense))) k)))
             \<and> (int k = int n * blk
                  \<and> map int (py_slice_from (shape sparse) (- 3)) \<noteq> expected \<longrightarrow>
                  validate_inputs self autocast a b =
                    Inl (ValueError (SparseShapeMismatch expected
                           (if md = ''dds'' then ''B'' else ''A'') (shape sparse))))
             \<and> (int k = int n * blk
                  \<and> map int (py_slice_from (shape sparse) (- 3)) = expected \<longrightarrow>
                  (\<forall>e. validate_inputs self autocast a b = Inl e \<longrightarrow>
                         e = ValueError TooManyDims)
                \<and> (length (shape a) \<le> 4 \<and> length (shape b) \<le> 4 \<longrightarrow>
                      (\<exists>a' b'. validate_inputs self autocast a b = Inr (a', b')))))"
    using n(1) by blast
next
  assume "md = ''sdd''"
  then have "mode self = ''sdd''" using matmul_init_mode(1)[OF init] by simp
  then show "\<forall>e. validate_inputs self autocast a b = Inl e \<longrightarrow> e = ValueError TooManyDims"
    using ok by (rule validate_sparse_output)
next
  show "\<forall>Ka Kb. py_index sa (if tra then - 2 else - 1) = Inr Ka
                \<and> py_index sb (if trb then - 1 else - 2) = Inr Kb \<longrightarrow>
           (Ka \<noteq> Kb \<longrightarrow>
              sdd_matmul sa sb tra trb False = Inl (ValueError (InnerDimMismatch Ka Kb)))
         \<and> (Ka = Kb \<and> Ka mod 16 \<noteq> 0 \<longrightarrow>
              sdd_matmul sa sb tra trb False = Inl (ValueError ReductionNotMultipleOf16))
         \<and> (Ka = Kb \<and> Ka mod 16 = 0 \<longrightarrow> sdd_matmul sa sb tra trb False = Inr Ka)"
    by (simp add: sdd_matmul_def Let_def)
qed

theorem validate_inputs_shape_errors_witness:
  "\<exists>self. matmul_init diag_layout 16 ''dsd'' False False = Inr self
     \<and> validate_inputs self False (gpu_tensor [2, 16, 16]) (gpu_tensor [48, 64])
         = Inl (ValueError (DenseInnerMismatch ''B'' 32 0 48))
     \<and> validate_inputs self False (gpu_tensor [3, 16, 16]) (gpu_tensor [32, 64])
         = Inl (ValueError (SparseShapeMismatch [2, 16, 16] ''A'' [3, 16, 16]))
     \<and> (\<exists>a' b'. validate_inputs self False (gpu_tensor [2, 16, 16]) (gpu_tensor [32, 64])
            = Inr (a', b'))
     \<and> sdd_matmul [1, 1, 32, 40] [1, 1, 40, 32] False False False
         = Inl (ValueError ReductionNotMultipleOf16)
     \<and> sdd_matmul [1, 1, 32, 48] [1, 1, 48, 32] False False False = Inr 48"
proof -
  define self where "self = \<lparr>block = 16, mode = ''dsd'', trans_a = False, trans_b = False,
        dense_inner_dim = Some (- 2), dense_inner_size = Some 32,
        sparse_shape = Some [2, 16, 16],
        self_layout = diag_layout\<lparr>shape := [1, 2, 2]\<rparr>, spdims = [1, 2, 2]\<rparr>"
  have init: "matmul_init diag_layout 16 ''dsd'' False False = Inr self"
    by (simp add: matmul_init_def diag_layout_def self_def py_index_def index_norm_def)
  have ok: "device (gpu_tensor s) = device (gpu_tensor s')" "is_cuda (gpu_tensor s)"
    "False \<or> dtype (gpu_tensor s) = dtype (gpu_tensor s')" for s s'
    by (simp_all add: gpu_tensor_def)
  have n: "py_index (shape diag_layout) (- 1) = Inr n \<longleftrightarrow> n = 2" for n
    by (auto simp: py_index_def index_norm_def diag_layout_def)
  have k: "py_index [x, y] (- 2) = Inr k \<longleftrightarrow> k = x" for x y k :: nat
    by (auto simp: py_index_def index_norm_def)
  have sl: "py_slice_from [x, y, z] (- 3) = [x, y, z]" for x y z :: nat
    by (simp add: py_slice_from_def slice_bound_def)
  have sum: "sum_list (entries diag_layout) = 2" by (simp add: diag_layout_def)
  have ix: "py_index [u, v, w, x] (- 1) = Inr Ka \<longleftrightarrow> Ka = x"
    "py_index [u, v, x, w] (- 2) = Inr Ka \<longleftrightarrow> Ka = x" for u v w x Ka :: nat
    by (auto simp: py_index_def index_norm_def)
  have sh: "shape (gpu_tensor s) = s" for s by (simp add: gpu_tensor_def)
  note t1 = validate_inputs_shape_errors[OF init ok, of "[2, 16, 16]" "[48, 64]"
      "[1, 1, 32, 40]" False "[1, 1, 40, 32]" False]
  note t2 = validate_inputs_shape_errors[OF init ok, of "[3, 16, 16]" "[32, 64]"
      "[1, 1, 32, 48]" False "[1, 1, 48, 32]" False]
  note t3 = validate_inputs_shape_errors[OF init ok, of "[2, 16, 16]" "[32, 64]"
      "[1, 1, 32, 48]" False "[1, 1, 48, 32]" False]
  have a: "validate_inputs self False (gpu_tensor [2, 16, 16]) (gpu_tensor [48, 64])
         = Inl (ValueError (DenseInnerMismatch ''B'' 32 0 48))"
    using t1 by (simp add: n k sl sum sh)
  have b: "validate_inputs self False (gpu_tensor [3, 16, 16]) (gpu_tensor [32, 64])
         = Inl (ValueError (SparseShapeMismatch [2, 16, 16] ''A'' [3, 16, 16]))"
    using t2 by (simp add: n k sl sum sh)
  have c: "\<exists>a' b'. validate_inputs self False (gpu_tensor [2, 16, 16]) (gpu_tensor [32, 64])
            = Inr (a', b')"
    using t3 by (simp add: n k sl sum sh)
  have d: "sdd_matmul [1, 1, 32, 40] [1, 1, 40, 32] False False False
         = Inl (ValueError ReductionNotMultipleOf16)"
    using t1 by (simp add: ix)
  have e: "sdd_matmul [1, 1, 32, 48] [1, 1, 48, 32] False False False = Inr 48"
    using t2 by (simp add: ix)
  show ?thesis using init a b c d e by blast
qed

end
